theory Spec2Isabelle
  imports Complex_Main
begin

section \<open>Data model of the layer view session\<close>

text \<open>
  The development embeds the class \<open>CanvasRender\<close> and the key handler of \<open>LayerView\<close>.
  Timestamps, box measurements and the pixel-density ratio are JavaScript numbers; they are
  modelled as \<open>real\<close>, which covers the finite values (no NaN, no infinity). Comparison
  of such numbers is exact. Their subtraction and multiplication are the host's, in double
  precision, and round; they are not taken to be the exact operations of \<open>real\<close> but enter
  as parameters, \<open>numSub\<close> and \<open>numMul\<close> below.

  The walkthrough object is declared elsewhere; the handler reads and writes the three fields
  below. The record is used through its extensible scheme, so every further field of the
  walkthrough is carried along unchanged in the extension \<open>'w\<close>.
\<close>

record walkthrough =
  running :: bool
  time :: real
  phaseLength :: real

text \<open>
  \<open>IProgramState\<close>, as far as \<open>CanvasRender\<close> touches it: the walkthrough, the bound model
  and \<open>render.size\<close> (a \<open>Vec3\<close> built from two components, kept as a pair).
\<close>

record ('w, 'm) program_state =
  walkthrough :: "'w walkthrough_scheme"
  gptGpuModel :: "'m option"
  render_size :: "real \<times> real"

text \<open>\<open>ICanvasData\<close>; \<open>None\<close> is \<open>null\<close>.\<close>

record 'd canvas_data =
  dataAndModel :: "'d option"

text \<open>
  The fields of \<open>CanvasRender\<close>. \<open>rafHandle\<close> is \<open>0\<close> when no handle is held. The field
  \<open>modelState\<close> is initialised to \<open>null\<close> and never used by the class, so it is left out;
  \<open>renderState\<close> is an alias of \<open>progState.render\<close>.
\<close>

record ('w, 'd, 'm, 'g) canvas_render =
  progState :: "('w, 'm) program_state"
  canvasData :: "'d canvas_data option"
  random :: 'g
  stopped :: bool
  canvasSizeDirty :: bool
  prevTime :: real
  rafHandle :: nat
  isDirty :: bool

text \<open>
  What a session does that is visible outside the object is recorded, in order, in a trace:
  setting the dirty flag, requesting a frame callback, assigning the backing-surface size,
  calling the program step with \<open>time\<close> and \<open>dt\<close>, notifying the overlay subscribers,
  preventing a key's default action, and the three calls into the model engine with their
  arguments.
\<close>

datatype ('d, 'm, 'g) action =
    SetDirty
  | RequestFrame nat
  | Resize real real
  | RunProgram real real
  | Notify
  | PreventDefault
  | InitModel 'd nat
  | SetModelInputData 'm 'g
  | RunModel 'm

text \<open>
  The host side: the number of frame callbacks requested so far (the last handle handed out,
  handles are positive), the handles of the callbacks requested and not yet fired, the
  backing-surface size of the canvas element, and the trace.
\<close>

record ('d, 'm, 'g) host =
  rafCount :: nat
  rafQueue :: "nat list"
  width :: real
  height :: real
  trace :: "('d, 'm, 'g) action list"

text \<open>
  Modelled from the spec: the seeded generator (\<open>utils/random\<close>), the model engine
  (\<open>GptModel\<close>), the program step (\<open>Program\<close>) and the overlay bus are imported by
  \<open>CanvasRender\<close> and are not among the sources at hand. The spec gives them by contract:
  the generator is deterministic (identical seed, identical output sequence, independent of
  call timing), \<open>setModelInputData\<close> is deterministic given the generator's state, and
  \<open>runModel\<close> returns when its results are ready. They enter as parameters, functions of their
  arguments. The model engine works on the model object by state passing:
  \<open>setModelInputData\<close> returns the model with its input written and the generator advanced,
  \<open>runModel\<close> the model with its activations; the render context they also receive is
  left out. \<open>runProgram\<close> gets \<open>time\<close>, \<open>dt\<close> and the walkthrough, and returns the
  walkthrough it leaves together with the timestamps at which it called \<open>markDirty\<close>;
  \<open>notifySubs\<close> gives the timestamps at which the overlay subscribers called \<open>markDirty\<close>
  during \<open>htmlSubs.notify()\<close>. All of them are taken to return normally.

  The record also carries the host's arithmetic on numbers: \<open>numSub a b\<close> is what
  \<open>a - b\<close> evaluates to and \<open>numMul a b\<close> what \<open>a * b\<close> evaluates to.
\<close>

record ('w, 'd, 'm, 'g) ext =
  newRandom :: "int \<Rightarrow> 'g"
  initModel :: "'d \<Rightarrow> nat \<Rightarrow> 'm"
  setModelInputData :: "'m \<Rightarrow> 'g \<Rightarrow> 'm \<times> 'g"
  runModel :: "'m \<Rightarrow> 'm"
  runProgram :: "real \<Rightarrow> real \<Rightarrow> 'w walkthrough_scheme \<Rightarrow> 'w walkthrough_scheme \<times> real list"
  notifySubs :: "'w walkthrough_scheme \<Rightarrow> real list"
  numSub :: "real \<Rightarrow> real \<Rightarrow> real"
  numMul :: "real \<Rightarrow> real \<Rightarrow> real"

type_synonym ('w, 'd, 'm, 'g) session = "('w, 'd, 'm, 'g) canvas_render \<times> ('d, 'm, 'g) host"

section \<open>The operations of CanvasRender\<close>

text \<open>
  The constructor, \<open>new CanvasRender(canvasEl, null!, fontAtlasData)\<close>: \<open>p0\<close> is the program
  state that \<open>initProgramState\<close> returns, \<open>now\<close> the value of \<open>performance.now()\<close> that
  initialises \<open>prevTime\<close>, and \<open>w0\<close>, \<open>h0\<close> the size the canvas element has. The host
  side of a new session has no frame callback requested and an empty trace.
\<close>

definition CanvasRender ::
  "('w, 'd, 'm, 'g) ext \<Rightarrow> ('w, 'm) program_state \<Rightarrow> 'd canvas_data option \<Rightarrow> real \<Rightarrow> real \<Rightarrow> real
    \<Rightarrow> ('w, 'd, 'm, 'g) session" where
  "CanvasRender E p0 data now w0 h0 =
     (\<lparr>progState = p0, canvasData = data, random = newRandom E 4, stopped = False,
       canvasSizeDirty = True, prevTime = now, rafHandle = 0, isDirty = False\<rparr>,
      \<lparr>rafCount = 0, rafQueue = [], width = w0, height = h0, trace = []\<rparr>)"

definition destroy :: "('w, 'd, 'm, 'g) session \<Rightarrow> ('w, 'd, 'm, 'g) session" where
  "destroy = (\<lambda>(c, h). (c\<lparr>stopped := True\<rparr>, h))"

text \<open>
  \<open>requestAnimationFrame(this.loop)\<close>: the host hands out a fresh positive handle and
  queues the callback.
\<close>

definition requestAnimationFrame :: "('d, 'm, 'g) host \<Rightarrow> nat \<times> ('d, 'm, 'g) host" where
  "requestAnimationFrame h =
     (let n = Suc (rafCount h)
      in (n, h\<lparr>rafCount := n, rafQueue := rafQueue h @ [n], trace := trace h @ [RequestFrame n]\<rparr>))"

definition markDirty :: "real \<Rightarrow> ('w, 'd, 'm, 'g) session \<Rightarrow> ('w, 'd, 'm, 'g) session" where
  "markDirty now = (\<lambda>(c, h).
     if canvasData c = None \<or> stopped c then (c, h)
     else
       let c1 = c\<lparr>isDirty := True\<rparr>;
           h1 = h\<lparr>trace := trace h @ [SetDirty]\<rparr>
       in if rafHandle c1 = 0
          then (let (n, h2) = requestAnimationFrame h1
                in (c1\<lparr>prevTime := now, rafHandle := n\<rparr>, h2))
          else (c1, h1))"

text \<open>Several calls of \<open>markDirty\<close> in a row, one per timestamp.\<close>

fun markDirtyAll :: "real list \<Rightarrow> ('w, 'd, 'm, 'g) session \<Rightarrow> ('w, 'd, 'm, 'g) session" where
  "markDirtyAll [] s = s"
| "markDirtyAll (now # ts) s = markDirtyAll ts (markDirty now s)"

text \<open>
  The \<open>width\<close> and \<open>height\<close> of a canvas element are integer attributes (\<open>unsigned long\<close>)
  that reflect the content attributes, with defaults \<open>300\<close> and \<open>150\<close>. An assigned number
  is truncated towards zero and reduced modulo \<open>2 ^ 32\<close>; if the result is at most
  \<open>2147483647\<close> it becomes the value of the attribute, otherwise the default does.
  \<open>canvasAttr dflt x\<close> is the value read back after \<open>x\<close> was assigned.
\<close>

definition toUnsignedLong :: "real \<Rightarrow> int" where
  "toUnsignedLong x = (if x < 0 then \<lceil>x\<rceil> else \<lfloor>x\<rfloor>) mod 2 ^ 32"

definition canvasAttr :: "real \<Rightarrow> real \<Rightarrow> real" where
  "canvasAttr dflt x =
     (let n = toUnsignedLong x in if n \<le> 2147483647 then real_of_int n else dflt)"

text \<open>
  \<open>render(time, dt)\<close>. \<open>bw\<close>, \<open>bh\<close> are the width and height that
  \<open>getBoundingClientRect()\<close> returns at this moment and \<open>scale\<close> is \<open>window.devicePixelRatio\<close>.
  The two products are assigned to the element; \<open>render.size\<close> is built from the width and
  height read back from the element, and these are what the trace records as the resize.
\<close>

definition render ::
  "('w, 'd, 'm, 'g) ext \<Rightarrow> real \<Rightarrow> real \<Rightarrow> real \<Rightarrow> real \<Rightarrow> real
    \<Rightarrow> ('w, 'd, 'm, 'g) session \<Rightarrow> ('w, 'd, 'm, 'g) session" where
  "render E tm dt bw bh scale = (\<lambda>(c, h).
     let (c1, h1) =
           (if canvasSizeDirty c
            then (let w = canvasAttr 300 (numMul E bw scale);
                      ht = canvasAttr 150 (numMul E bh scale)
                  in (c\<lparr>progState := (progState c)\<lparr>render_size := (w, ht)\<rparr>,
                        canvasSizeDirty := False\<rparr>,
                      h\<lparr>width := w, height := ht, trace := trace h @ [Resize w ht]\<rparr>))
            else (c, h));
         (wt, marks) = runProgram E tm dt (walkthrough (progState c1));
         c2 = c1\<lparr>progState := (progState c1)\<lparr>walkthrough := wt\<rparr>\<rparr>;
         h2 = h1\<lparr>trace := trace h1 @ [RunProgram tm dt]\<rparr>;
         (c3, h3) = markDirtyAll marks (c2, h2);
         h4 = h3\<lparr>trace := trace h3 @ [Notify]\<rparr>
     in markDirtyAll (notifySubs E (walkthrough (progState c3))) (c3, h4))"

text \<open>\<open>loop(time)\<close>, the frame callback.\<close>

definition loop ::
  "('w, 'd, 'm, 'g) ext \<Rightarrow> real \<Rightarrow> real \<Rightarrow> real \<Rightarrow> real
    \<Rightarrow> ('w, 'd, 'm, 'g) session \<Rightarrow> ('w, 'd, 'm, 'g) session" where
  "loop E tm bw bh scale = (\<lambda>(c, h).
     if \<not> isDirty c \<or> stopped c then (c\<lparr>rafHandle := 0\<rparr>, h)
     else
       let c1 = c\<lparr>isDirty := False\<rparr>;
           dt = numSub E tm (prevTime c1);
           c2 = c1\<lparr>prevTime := tm\<rparr>;
           dt' = (if dt < 8 then 16 else dt);
           (c3, h3) = render E tm dt' bw bh scale (c2, h);
           (n, h4) = requestAnimationFrame h3
       in (c3\<lparr>rafHandle := n\<rparr>, h4))"

text \<open>
  \<open>setData(data)\<close>; \<open>now\<close> is \<open>performance.now()\<close> as the final \<open>markDirty\<close> reads it.
\<close>

definition setData ::
  "('w, 'd, 'm, 'g) ext \<Rightarrow> 'd canvas_data \<Rightarrow> real
    \<Rightarrow> ('w, 'd, 'm, 'g) session \<Rightarrow> ('w, 'd, 'm, 'g) session" where
  "setData E data now = (\<lambda>(c, h).
     let c1 = c\<lparr>canvasData := Some data\<rparr>;
         (c2, h2) =
           (case dataAndModel data of
              None \<Rightarrow> (c1, h)
            | Some d \<Rightarrow>
                if gptGpuModel (progState c1) = None
                then (let m0 = initModel E d 1;
                          (m1, g1) = setModelInputData E m0 (random c1);
                          m2 = runModel E m1
                      in (c1\<lparr>progState := (progState c1)\<lparr>gptGpuModel := Some m2\<rparr>,
                             random := g1\<rparr>,
                          h\<lparr>trace := trace h @
                               [InitModel d 1, SetModelInputData m0 (random c1), RunModel m1]\<rparr>))
                else (c1, h))
     in markDirty now (c2, h2))"

section \<open>The callbacks of LayerView\<close>

text \<open>The \<open>ResizeObserver\<close> callback.\<close>

definition resizeNotify :: "real \<Rightarrow> ('w, 'd, 'm, 'g) session \<Rightarrow> ('w, 'd, 'm, 'g) session" where
  "resizeNotify now = (\<lambda>(c, h). markDirty now (c\<lparr>canvasSizeDirty := True\<rparr>, h))"

fun resizeNotifyAll :: "real list \<Rightarrow> ('w, 'd, 'm, 'g) session \<Rightarrow> ('w, 'd, 'm, 'g) session" where
  "resizeNotifyAll [] s = s"
| "resizeNotifyAll (now # ts) s = resizeNotifyAll ts (resizeNotify now s)"

text \<open>
  \<open>handleKeyDown(ev)\<close> with \<open>key = ev.key\<close>. The first component of the state is the React
  state \<open>canvasRender\<close>, \<open>None\<close> while it is \<open>null\<close>; \<open>progState\<close> is set by the constructor,
  so the guard fails exactly then.
\<close>

definition setWalkthrough ::
  "('w walkthrough_scheme \<Rightarrow> 'w walkthrough_scheme) \<Rightarrow> ('w, 'd, 'm, 'g) canvas_render
    \<Rightarrow> ('w, 'd, 'm, 'g) canvas_render" where
  "setWalkthrough f c = c\<lparr>progState := (progState c)\<lparr>walkthrough := f (walkthrough (progState c))\<rparr>\<rparr>"

definition handleKeyDown ::
  "string \<Rightarrow> real \<Rightarrow> ('w, 'd, 'm, 'g) canvas_render option \<times> ('d, 'm, 'g) host
    \<Rightarrow> ('w, 'd, 'm, 'g) canvas_render option \<times> ('d, 'm, 'g) host" where
  "handleKeyDown key now = (\<lambda>(canvasRender, h).
     case canvasRender of
       None \<Rightarrow> (None, h)
     | Some c \<Rightarrow>
         let s1 = (if key = '' ''
                   then markDirty now (setWalkthrough (\<lambda>w. w\<lparr>running := \<not> running w\<rparr>) c, h)
                   else (c, h));
             s2 = (if key = ''Backspace'' \<or> key = ''Delete''
                   then markDirty now
                          (setWalkthrough (\<lambda>w. w\<lparr>running := False, time := 0\<rparr>) (fst s1), snd s1)
                   else s1);
             s3 = (if key = ''f'' \<or> key = ''F''
                   then markDirty now
                          (setWalkthrough (\<lambda>w. w\<lparr>running := False, time := phaseLength w\<rparr>) (fst s2),
                           snd s2)
                   else s2);
             h4 = (if key = '' '' then (snd s3)\<lparr>trace := trace (snd s3) @ [PreventDefault]\<rparr>
                   else snd s3)
         in (Some (fst s3), h4))"

section \<open>Executions\<close>

text \<open>
  What can happen to a session after its construction: a call of \<open>markDirty\<close> through one of
  the closures handed to the program state, the host firing the oldest queued frame callback
  (with the timestamp, the measured box and the pixel-density ratio of that moment),
  \<open>destroy\<close>, \<open>setData\<close>, a resize notification, and a key press while the session is the
  one held by the view.
\<close>

datatype 'd event =
    MarkDirty real
  | Frame real real real real
  | Destroy
  | SetData "'d canvas_data" real
  | ResizeNotify real
  | KeyDown string real

text \<open>The host runs a frame callback only if one is queued, and removes it from the queue.\<close>

definition fire ::
  "('w, 'd, 'm, 'g) ext \<Rightarrow> real \<Rightarrow> real \<Rightarrow> real \<Rightarrow> real
    \<Rightarrow> ('w, 'd, 'm, 'g) session \<Rightarrow> ('w, 'd, 'm, 'g) session" where
  "fire E tm bw bh scale = (\<lambda>(c, h).
     case rafQueue h of
       [] \<Rightarrow> (c, h)
     | q # qs \<Rightarrow> loop E tm bw bh scale (c, h\<lparr>rafQueue := qs\<rparr>))"

definition keyDown :: "string \<Rightarrow> real \<Rightarrow> ('w, 'd, 'm, 'g) session \<Rightarrow> ('w, 'd, 'm, 'g) session" where
  "keyDown key now = (\<lambda>(c, h).
     case handleKeyDown key now (Some c, h) of
       (Some c', h') \<Rightarrow> (c', h')
     | (None, h') \<Rightarrow> (c, h'))"

fun step :: "('w, 'd, 'm, 'g) ext \<Rightarrow> 'd event \<Rightarrow> ('w, 'd, 'm, 'g) session \<Rightarrow> ('w, 'd, 'm, 'g) session" where
  "step E (MarkDirty now) s = markDirty now s"
| "step E (Frame tm bw bh scale) s = fire E tm bw bh scale s"
| "step E Destroy s = destroy s"
| "step E (SetData data now) s = setData E data now s"
| "step E (ResizeNotify now) s = resizeNotify now s"
| "step E (KeyDown key now) s = keyDown key now s"

fun run :: "('w, 'd, 'm, 'g) ext \<Rightarrow> 'd event list \<Rightarrow> ('w, 'd, 'm, 'g) session \<Rightarrow> ('w, 'd, 'm, 'g) session" where
  "run E [] s = s"
| "run E (e # es) s = run E es (step E e s)"

section \<open>Commands, observations and sample sessions\<close>

text \<open>
  The three walkthrough commands and the keys that \<open>handleKeyDown\<close> binds to them.
\<close>

datatype command = Toggle | Reset | SkipToEnd

fun keysOf :: "command \<Rightarrow> string list" where
  "keysOf Toggle = ['' '']"
| "keysOf Reset = [''Backspace'', ''Delete'']"
| "keysOf SkipToEnd = [''f'', ''F'']"

text \<open>
  The walkthrough of a session.
\<close>

definition walkthroughOf :: "('w, 'd, 'm, 'g) session \<Rightarrow> 'w walkthrough_scheme" where
  "walkthroughOf s = walkthrough (progState (fst s))"

text \<open>
  The state in which \<open>setData\<close> makes its final call of \<open>markDirty\<close>.
\<close>

definition bindData ::
  "('w, 'd, 'm, 'g) ext \<Rightarrow> 'd canvas_data \<Rightarrow> ('w, 'd, 'm, 'g) session \<Rightarrow> ('w, 'd, 'm, 'g) session" where
  "bindData E data = (\<lambda>(c, h).
     case dataAndModel data of
       None \<Rightarrow> (c\<lparr>canvasData := Some data\<rparr>, h)
     | Some d \<Rightarrow>
         if gptGpuModel (progState c) = None
         then (c\<lparr>canvasData := Some data,
                 progState := (progState c)\<lparr>gptGpuModel :=
                   Some (runModel E (fst (setModelInputData E (initModel E d 1) (random c))))\<rparr>,
                 random := snd (setModelInputData E (initModel E d 1) (random c))\<rparr>,
               h\<lparr>trace := trace h @
                 [InitModel d 1, SetModelInputData (initModel E d 1) (random c),
                  RunModel (fst (setModelInputData E (initModel E d 1) (random c)))]\<rparr>)
         else (c\<lparr>canvasData := Some data\<rparr>, h))"

text \<open>
  The program steps in a trace, each with its \<open>time\<close> and \<open>dt\<close>: one per render pass.
\<close>

fun programCalls :: "('d, 'm, 'g) action list \<Rightarrow> (real \<times> real) list" where
  "programCalls [] = []"
| "programCalls (RunProgram tm dt # as) = (tm, dt) # programCalls as"
| "programCalls (a # as) = programCalls as"

text \<open>
  The backing-surface resizes in a trace, each with the size assigned.
\<close>

fun resizeCalls :: "('d, 'm, 'g) action list \<Rightarrow> (real \<times> real) list" where
  "resizeCalls [] = []"
| "resizeCalls (Resize w h # as) = (w, h) # resizeCalls as"
| "resizeCalls (a # as) = resizeCalls as"

text \<open>
  The calls into the model engine in a trace.
\<close>

fun engineCalls :: "('d, 'm, 'g) action list \<Rightarrow> ('d, 'm, 'g) action list" where
  "engineCalls [] = []"
| "engineCalls (InitModel d b # as) = InitModel d b # engineCalls as"
| "engineCalls (SetModelInputData m g # as) = SetModelInputData m g # engineCalls as"
| "engineCalls (RunModel m # as) = RunModel m # engineCalls as"
| "engineCalls (a # as) = engineCalls as"

text \<open>
  The dirty flag as a trace leaves it, started from \<open>d\<close>: set by \<open>SetDirty\<close>, cleared by the
  render pass, whose program step is recorded right after the flag is cleared.
\<close>

fun dirtyAfter :: "bool \<Rightarrow> ('d, 'm, 'g) action list \<Rightarrow> bool" where
  "dirtyAfter d [] = d"
| "dirtyAfter d (SetDirty # as) = dirtyAfter True as"
| "dirtyAfter d (RunProgram tm dt # as) = dirtyAfter False as"
| "dirtyAfter d (a # as) = dirtyAfter d as"

text \<open>
  Every render pass of a trace finds the dirty flag set by a \<open>SetDirty\<close> that came after the
  previous render pass; \<open>d\<close> is the flag at the start of the trace.
\<close>

fun rendersFollowMarks :: "bool \<Rightarrow> ('d, 'm, 'g) action list \<Rightarrow> bool" where
  "rendersFollowMarks d [] = True"
| "rendersFollowMarks d (SetDirty # as) = rendersFollowMarks True as"
| "rendersFollowMarks d (RunProgram tm dt # as) = (d \<and> rendersFollowMarks False as)"
| "rendersFollowMarks d (a # as) = rendersFollowMarks d as"

text \<open>
  The engine calls come in groups of three: \<open>initModel\<close>, then \<open>setModelInputData\<close> on the
  model that \<open>initModel\<close> returned, then \<open>runModel\<close> on the model with its input written.
\<close>

fun callOrder :: "('w, 'd, 'm, 'g) ext \<Rightarrow> ('d, 'm, 'g) action list \<Rightarrow> bool" where
  "callOrder E [] = True"
| "callOrder E (InitModel d b # SetModelInputData m g # RunModel m' # as) =
     (m = initModel E d b \<and> m' = fst (setModelInputData E m g) \<and> callOrder E as)"
| "callOrder E as = False"

text \<open>
  The first data-and-model pair that the \<open>setData\<close> calls of an execution pass in.
\<close>

fun firstData :: "'d event list \<Rightarrow> 'd option" where
  "firstData [] = None"
| "firstData (SetData data now # es) =
     (case dataAndModel data of Some d \<Rightarrow> Some d | None \<Rightarrow> firstData es)"
| "firstData (e # es) = firstData es"

fun isSetData :: "'d event \<Rightarrow> bool" where
  "isSetData (SetData data now) = True"
| "isSetData e = False"

text \<open>
  The scheduler holds a handle exactly when a frame callback is queued, and then the queue
  holds that callback alone.
\<close>

definition oneFrame :: "('w, 'd, 'm, 'g) session \<Rightarrow> bool" where
  "oneFrame = (\<lambda>(c, h). if rafHandle c = 0 then rafQueue h = [] else rafQueue h = [rafHandle c])"

text \<open>
  The dirty flag is the one the trace accounts for, and the trace has a \<open>SetDirty\<close> before
  each render pass.
\<close>

definition dirtyLogged :: "('w, 'd, 'm, 'g) session \<Rightarrow> bool" where
  "dirtyLogged = (\<lambda>(c, h). dirtyAfter False (trace h) = isDirty c \<and> rendersFollowMarks False (trace h))"

text \<open>
  The part of a session that \<open>markDirty\<close> can change, next to \<open>canvasData\<close>.
\<close>

definition schedView ::
  "('w, 'd, 'm, 'g) session \<Rightarrow> 'd canvas_data option \<times> bool \<times> real \<times> nat \<times> nat \<times> nat list" where
  "schedView = (\<lambda>(c, h). (canvasData c, isDirty c, prevTime c, rafHandle c, rafCount h, rafQueue h))"

text \<open>
  The part of a session that the model binding in \<open>setData\<close> reads and writes.
\<close>

definition engineView ::
  "('w, 'd, 'm, 'g) session \<Rightarrow> 'm option \<times> 'g \<times> ('d, 'm, 'g) action list" where
  "engineView = (\<lambda>(c, h). (gptGpuModel (progState c), random c, engineCalls (trace h)))"

text \<open>
  The model that \<open>setData\<close> binds for data \<open>d\<close> when the generator is \<open>g\<close>, and the engine
  calls it makes for it.
\<close>

definition forwardPass :: "('w, 'd, 'm, 'g) ext \<Rightarrow> 'd \<Rightarrow> 'g \<Rightarrow> 'm" where
  "forwardPass E d g = runModel E (fst (setModelInputData E (initModel E d 1) g))"

definition forwardCalls :: "('w, 'd, 'm, 'g) ext \<Rightarrow> 'd \<Rightarrow> 'g \<Rightarrow> ('d, 'm, 'g) action list" where
  "forwardCalls E d g =
     [InitModel d 1, SetModelInputData (initModel E d 1) g,
      RunModel (fst (setModelInputData E (initModel E d 1) g))]"

text \<open>
  A sample of collaborators and sample sessions, used to evaluate the operations on concrete
  inputs. The sample program step advances a running walkthrough by \<open>dt\<close> and then asks
  for a redraw. The sample arithmetic is the exact one; the sample inputs are numbers with
  short binary expansions, on which double precision is exact too. \<open>boundSession\<close> has
  data bound and its first frame queued,
  \<open>renderedSession\<close> has rendered that frame and queued the next, \<open>idleSession\<close> has let
  that one fire with nothing to draw, \<open>destroyedSession\<close> was destroyed with a frame queued.
\<close>

definition sampleExt :: "(unit, nat, nat list, nat) ext" where
  "sampleExt =
     \<lparr>newRandom = (\<lambda>seed. nat seed),
      initModel = (\<lambda>d b. [d, b]),
      setModelInputData = (\<lambda>m g. (g # m, Suc g)),
      runModel = (\<lambda>m. 0 # m),
      runProgram = (\<lambda>tm dt w. if running w then (w\<lparr>time := time w + dt\<rparr>, [tm]) else (w, [])),
      notifySubs = (\<lambda>w. []),
      numSub = (\<lambda>a b. a - b),
      numMul = (\<lambda>a b. a * b)\<rparr>"

definition sampleProgState :: "(unit, nat list) program_state" where
  "sampleProgState =
     \<lparr>walkthrough = \<lparr>running = False, time = 0, phaseLength = 10\<rparr>,
      gptGpuModel = None, render_size = (0, 0)\<rparr>"

definition sampleSession :: "(unit, nat, nat list, nat) session" where
  "sampleSession = CanvasRender sampleExt sampleProgState None 0 300 150"

definition boundSession :: "(unit, nat, nat list, nat) session" where
  "boundSession = run sampleExt [SetData \<lparr>dataAndModel = Some 7\<rparr> 1] sampleSession"

definition renderedSession :: "(unit, nat, nat list, nat) session" where
  "renderedSession = run sampleExt [Frame 20 100 50 2] boundSession"

definition idleSession :: "(unit, nat, nat list, nat) session" where
  "idleSession = run sampleExt [Frame 40 100 50 2] renderedSession"

definition destroyedSession :: "(unit, nat, nat list, nat) session" where
  "destroyedSession = run sampleExt [SetData \<lparr>dataAndModel = None\<rparr> 1, Destroy] sampleSession"

section \<open>Auxiliary facts\<close>

subsection \<open>Observations on appended traces\<close>

lemma programCalls_append: "programCalls (xs @ ys) = programCalls xs @ programCalls ys"
  by (induction xs rule: programCalls.induct) simp_all

lemma resizeCalls_append: "resizeCalls (xs @ ys) = resizeCalls xs @ resizeCalls ys"
  by (induction xs rule: resizeCalls.induct) simp_all

lemma engineCalls_append: "engineCalls (xs @ ys) = engineCalls xs @ engineCalls ys"
  by (induction xs rule: engineCalls.induct) simp_all

lemma programCalls_replicate: "programCalls (replicate k SetDirty) = []"
  by (induction k) simp_all

lemma dirtyAfter_append: "dirtyAfter d (xs @ ys) = dirtyAfter (dirtyAfter d xs) ys"
  by (induction d xs rule: dirtyAfter.induct) simp_all

lemma rendersFollowMarks_append:
  "rendersFollowMarks d (xs @ ys) = (rendersFollowMarks d xs \<and> rendersFollowMarks (dirtyAfter d xs) ys)"
  by (induction d xs rule: rendersFollowMarks.induct) simp_all

lemma dirtyAfter_replicate: "dirtyAfter d (replicate k SetDirty) = (d \<or> 0 < k)"
  by (induction k arbitrary: d) simp_all

lemma rendersFollowMarks_replicate: "rendersFollowMarks d (replicate k SetDirty)"
  by (induction k arbitrary: d) simp_all

subsection \<open>What markDirty does, with and without a handle held\<close>

lemma markDirty_progState: "progState (fst (markDirty now s)) = progState (fst s)"
  by (cases s) (simp add: markDirty_def requestAnimationFrame_def Let_def)

lemma markDirty_noop: "canvasData (fst s) = None \<or> stopped (fst s) \<Longrightarrow> markDirty now s = s"
  by (cases s) (auto simp add: markDirty_def)

lemma markDirtyAll_noop:
  "canvasData (fst s) = None \<or> stopped (fst s) \<Longrightarrow> markDirtyAll ts s = s"
  by (induction ts) (simp_all add: markDirty_noop)

lemma markDirty_held:
  "rafHandle c \<noteq> 0 \<Longrightarrow>
   markDirty now (c, h) =
     (if canvasData c = None \<or> stopped c then (c, h)
      else (c\<lparr>isDirty := True\<rparr>, h\<lparr>trace := trace h @ [SetDirty]\<rparr>))"
  by (simp add: markDirty_def Let_def)

lemma markDirty_free:
  "rafHandle c = 0 \<Longrightarrow>
   markDirty now (c, h) =
     (if canvasData c = None \<or> stopped c then (c, h)
      else (c\<lparr>isDirty := True, prevTime := now, rafHandle := Suc (rafCount h)\<rparr>,
            h\<lparr>rafCount := Suc (rafCount h), rafQueue := rafQueue h @ [Suc (rafCount h)],
              trace := trace h @ [SetDirty, RequestFrame (Suc (rafCount h))]\<rparr>))"
  by (simp add: markDirty_def Let_def requestAnimationFrame_def)

lemma markDirtyAll_held:
  "rafHandle c \<noteq> 0 \<Longrightarrow>
   markDirtyAll ts (c, h) =
     (if canvasData c = None \<or> stopped c \<or> ts = [] then (c, h)
      else (c\<lparr>isDirty := True\<rparr>, h\<lparr>trace := trace h @ replicate (length ts) SetDirty\<rparr>))"
proof (induction ts arbitrary: c h)
  case Nil
  then show ?case by simp
next
  case (Cons now ts)
  show ?case
  proof (cases "canvasData c = None \<or> stopped c")
    case True
    with Cons show ?thesis by (auto simp add: markDirty_held)
  next
    case False
    with Cons.prems have "markDirty now (c, h) = (c\<lparr>isDirty := True\<rparr>, h\<lparr>trace := trace h @ [SetDirty]\<rparr>)"
      by (auto simp add: markDirty_held)
    moreover have "rafHandle (c\<lparr>isDirty := True\<rparr>) \<noteq> 0"
      using Cons.prems by simp
    ultimately show ?thesis
      using False Cons.IH [of "c\<lparr>isDirty := True\<rparr>" "h\<lparr>trace := trace h @ [SetDirty]\<rparr>"]
      by (auto simp add: replicate_append_same [symmetric] simp del: replicate_append_same)
  qed
qed

lemma markDirtyAll_after_first:
  "rafQueue (snd (markDirtyAll (now # ts) s)) = rafQueue (snd (markDirty now s))"
  "rafCount (snd (markDirtyAll (now # ts) s)) = rafCount (snd (markDirty now s))"
proof -
  obtain c h where s: "s = (c, h)" by (cases s)
  obtain c' h' where m: "markDirty now (c, h) = (c', h')" by (cases "markDirty now (c, h)")
  have rest: "rafQueue (snd (markDirtyAll ts (c', h'))) = rafQueue h' \<and>
              rafCount (snd (markDirtyAll ts (c', h'))) = rafCount h'"
  proof (cases "canvasData c = None \<or> stopped c")
    case True
    then have "(c', h') = (c, h)"
      using m markDirty_noop [of "(c, h)" now] by simp
    then show ?thesis
      using True markDirtyAll_noop [of "(c, h)" ts] by simp
  next
    case False
    then have "rafHandle c' \<noteq> 0"
      using m by (cases "rafHandle c = 0") (auto simp add: markDirty_free markDirty_held)
    then show ?thesis
      by (auto simp add: markDirtyAll_held)
  qed
  show "rafQueue (snd (markDirtyAll (now # ts) s)) = rafQueue (snd (markDirty now s))"
    using rest s m by simp
  show "rafCount (snd (markDirtyAll (now # ts) s)) = rafCount (snd (markDirty now s))"
    using rest s m by simp
qed

lemma markDirty_frame:
  "canvasSizeDirty (fst (markDirty now s)) = canvasSizeDirty (fst s)"
  "stopped (fst (markDirty now s)) = stopped (fst s)"
  "canvasData (fst (markDirty now s)) = canvasData (fst s)"
  "random (fst (markDirty now s)) = random (fst s)"
  "width (snd (markDirty now s)) = width (snd s)"
  "height (snd (markDirty now s)) = height (snd s)"
  "resizeCalls (trace (snd (markDirty now s))) = resizeCalls (trace (snd s))"
  "programCalls (trace (snd (markDirty now s))) = programCalls (trace (snd s))"
  "engineCalls (trace (snd (markDirty now s))) = engineCalls (trace (snd s))"
  by (cases s; simp add: markDirty_def Let_def requestAnimationFrame_def resizeCalls_append
      programCalls_append engineCalls_append)+

lemma markDirtyAll_frame:
  "canvasSizeDirty (fst (markDirtyAll ts s)) = canvasSizeDirty (fst s)"
  "stopped (fst (markDirtyAll ts s)) = stopped (fst s)"
  "canvasData (fst (markDirtyAll ts s)) = canvasData (fst s)"
  "random (fst (markDirtyAll ts s)) = random (fst s)"
  "progState (fst (markDirtyAll ts s)) = progState (fst s)"
  "width (snd (markDirtyAll ts s)) = width (snd s)"
  "height (snd (markDirtyAll ts s)) = height (snd s)"
  "resizeCalls (trace (snd (markDirtyAll ts s))) = resizeCalls (trace (snd s))"
  "programCalls (trace (snd (markDirtyAll ts s))) = programCalls (trace (snd s))"
  "engineCalls (trace (snd (markDirtyAll ts s))) = engineCalls (trace (snd s))"
  by (induction ts arbitrary: s; simp add: markDirty_frame markDirty_progState)+

subsection \<open>The key handler and setData\<close>

lemma setWalkthrough_fields [simp]:
  "canvasData (setWalkthrough f c) = canvasData c"
  "stopped (setWalkthrough f c) = stopped c"
  "rafHandle (setWalkthrough f c) = rafHandle c"
  "isDirty (setWalkthrough f c) = isDirty c"
  "prevTime (setWalkthrough f c) = prevTime c"
  "random (setWalkthrough f c) = random c"
  "canvasSizeDirty (setWalkthrough f c) = canvasSizeDirty c"
  "gptGpuModel (progState (setWalkthrough f c)) = gptGpuModel (progState c)"
  by (simp_all add: setWalkthrough_def)

lemma keyDown_cases:
  "keyDown key now (c, h) =
     (if key = '' '' then
        (fst (markDirty now (setWalkthrough (\<lambda>w. w\<lparr>running := \<not> running w\<rparr>) c, h)),
         (snd (markDirty now (setWalkthrough (\<lambda>w. w\<lparr>running := \<not> running w\<rparr>) c, h)))
           \<lparr>trace := trace (snd (markDirty now (setWalkthrough (\<lambda>w. w\<lparr>running := \<not> running w\<rparr>) c, h)))
              @ [PreventDefault]\<rparr>)
      else if key = ''Backspace'' \<or> key = ''Delete'' then
        markDirty now (setWalkthrough (\<lambda>w. w\<lparr>running := False, time := 0\<rparr>) c, h)
      else if key = ''f'' \<or> key = ''F'' then
        markDirty now (setWalkthrough (\<lambda>w. w\<lparr>running := False, time := phaseLength w\<rparr>) c, h)
      else (c, h))"
  by (simp add: keyDown_def handleKeyDown_def Let_def)

lemma walkthroughOf_keyDown:
  "walkthroughOf (keyDown key now s) =
     (let w = walkthroughOf s in
      if key = '' '' then w\<lparr>running := \<not> running w\<rparr>
      else if key = ''Backspace'' \<or> key = ''Delete'' then w\<lparr>running := False, time := 0\<rparr>
      else if key = ''f'' \<or> key = ''F'' then w\<lparr>running := False, time := phaseLength w\<rparr>
      else w)"
  by (cases s) (simp add: keyDown_def handleKeyDown_def Let_def walkthroughOf_def markDirty_progState setWalkthrough_def)

lemma setData_bindData: "setData E data now s = markDirty now (bindData E data s)"
  by (cases s) (auto simp add: setData_def bindData_def Let_def split_def split: option.splits)

lemma bindData_frame:
  "rafHandle (fst (bindData E data s)) = rafHandle (fst s)"
  "isDirty (fst (bindData E data s)) = isDirty (fst s)"
  "stopped (fst (bindData E data s)) = stopped (fst s)"
  "prevTime (fst (bindData E data s)) = prevTime (fst s)"
  "canvasSizeDirty (fst (bindData E data s)) = canvasSizeDirty (fst s)"
  "canvasData (fst (bindData E data s)) = Some data"
  "rafQueue (snd (bindData E data s)) = rafQueue (snd s)"
  "rafCount (snd (bindData E data s)) = rafCount (snd s)"
  by (cases s; simp add: bindData_def split: option.splits)+

lemma bindData_trace:
  "\<exists>xs. trace (snd (bindData E data s)) = trace (snd s) @ xs \<and>
     (\<forall>d. dirtyAfter d xs = d \<and> rendersFollowMarks d xs) \<and> programCalls xs = [] \<and> resizeCalls xs = []"
  by (cases s) (simp add: bindData_def split: option.splits)

subsection \<open>A render pass and the frame callback\<close>

lemma render_held_frame:
  assumes "rafHandle c \<noteq> 0"
  shows "rafHandle (fst (render E tm dt bw bh scale (c, h))) = rafHandle c"
    and "prevTime (fst (render E tm dt bw bh scale (c, h))) = prevTime c"
    and "stopped (fst (render E tm dt bw bh scale (c, h))) = stopped c"
    and "canvasData (fst (render E tm dt bw bh scale (c, h))) = canvasData c"
    and "random (fst (render E tm dt bw bh scale (c, h))) = random c"
    and "gptGpuModel (progState (fst (render E tm dt bw bh scale (c, h)))) = gptGpuModel (progState c)"
    and "\<not> canvasSizeDirty (fst (render E tm dt bw bh scale (c, h)))"
    and "rafQueue (snd (render E tm dt bw bh scale (c, h))) = rafQueue h"
    and "rafCount (snd (render E tm dt bw bh scale (c, h))) = rafCount h"
  using assms
  by (simp_all add: render_def Let_def split_def markDirtyAll_held)

lemma render_held_trace:
  assumes "rafHandle c \<noteq> 0"
  shows "\<exists>k1 k2. trace (snd (render E tm dt bw bh scale (c, h))) =
           trace h @ (if canvasSizeDirty c
                     then [Resize (canvasAttr 300 (numMul E bw scale)) (canvasAttr 150 (numMul E bh scale))]
                     else [])
             @ [RunProgram tm dt] @ replicate k1 SetDirty @ [Notify] @ replicate k2 SetDirty
          \<and> isDirty (fst (render E tm dt bw bh scale (c, h))) = (isDirty c \<or> 0 < k1 \<or> 0 < k2)"
proof -
  obtain wt marks where rp: "runProgram E tm dt (walkthrough (progState c)) = (wt, marks)"
    by (cases "runProgram E tm dt (walkthrough (progState c))")
  define k1 where "k1 = (if canvasData c = None \<or> stopped c then 0 else length marks)"
  define k2 where "k2 = (if canvasData c = None \<or> stopped c then 0 else length (notifySubs E wt))"
  have "trace (snd (render E tm dt bw bh scale (c, h))) =
           trace h @ (if canvasSizeDirty c
                     then [Resize (canvasAttr 300 (numMul E bw scale)) (canvasAttr 150 (numMul E bh scale))]
                     else [])
             @ [RunProgram tm dt] @ replicate k1 SetDirty @ [Notify] @ replicate k2 SetDirty
          \<and> isDirty (fst (render E tm dt bw bh scale (c, h))) = (isDirty c \<or> 0 < k1 \<or> 0 < k2)"
    using assms rp by (auto simp add: render_def Let_def split_def markDirtyAll_held k1_def k2_def)
  then show ?thesis by blast
qed

lemma render_resize:
  "\<not> canvasSizeDirty (fst (render E tm dt bw bh scale (c, h)))"
  "resizeCalls (trace (snd (render E tm dt bw bh scale (c, h)))) =
     resizeCalls (trace h) @
       (if canvasSizeDirty c
        then [(canvasAttr 300 (numMul E bw scale), canvasAttr 150 (numMul E bh scale))] else [])"
  "width (snd (render E tm dt bw bh scale (c, h))) =
     (if canvasSizeDirty c then canvasAttr 300 (numMul E bw scale) else width h)"
  "height (snd (render E tm dt bw bh scale (c, h))) =
     (if canvasSizeDirty c then canvasAttr 150 (numMul E bh scale) else height h)"
  "render_size (progState (fst (render E tm dt bw bh scale (c, h)))) =
     (if canvasSizeDirty c
      then (canvasAttr 300 (numMul E bw scale), canvasAttr 150 (numMul E bh scale))
      else render_size (progState c))"
  by (simp_all add: render_def Let_def split_def markDirtyAll_frame resizeCalls_append)

lemma render_engine:
  "stopped (fst (render E tm dt bw bh scale (c, h))) = stopped c"
  "canvasData (fst (render E tm dt bw bh scale (c, h))) = canvasData c"
  "random (fst (render E tm dt bw bh scale (c, h))) = random c"
  "gptGpuModel (progState (fst (render E tm dt bw bh scale (c, h)))) = gptGpuModel (progState c)"
  "engineCalls (trace (snd (render E tm dt bw bh scale (c, h)))) = engineCalls (trace h)"
  by (simp_all add: render_def Let_def split_def markDirtyAll_frame engineCalls_append)

lemma loop_dirty:
  assumes "isDirty c" and "\<not> stopped c"
  shows "loop E tm bw bh scale (c, h) =
    (let r = render E tm (if numSub E tm (prevTime c) < 8 then 16 else numSub E tm (prevTime c))
               bw bh scale
               (c\<lparr>isDirty := False, prevTime := tm\<rparr>, h)
     in ((fst r)\<lparr>rafHandle := Suc (rafCount (snd r))\<rparr>,
         (snd r)\<lparr>rafCount := Suc (rafCount (snd r)), rafQueue := rafQueue (snd r) @ [Suc (rafCount (snd r))],
           trace := trace (snd r) @ [RequestFrame (Suc (rafCount (snd r)))]\<rparr>))"
  using assms by (simp add: loop_def Let_def split_def requestAnimationFrame_def)

lemma resizeNotifyAll_frame:
  "resizeCalls (trace (snd (resizeNotifyAll ts s))) = resizeCalls (trace (snd s))"
  "ts \<noteq> [] \<or> canvasSizeDirty (fst s) \<Longrightarrow> canvasSizeDirty (fst (resizeNotifyAll ts s))"
proof -
  show "resizeCalls (trace (snd (resizeNotifyAll ts s))) = resizeCalls (trace (snd s))"
    by (induction ts arbitrary: s) (simp_all add: resizeNotify_def split_def markDirty_frame)
  show "ts \<noteq> [] \<or> canvasSizeDirty (fst s) \<Longrightarrow> canvasSizeDirty (fst (resizeNotifyAll ts s))"
    by (induction ts arbitrary: s) (simp_all add: resizeNotify_def split_def markDirty_frame)
qed

subsection \<open>At most one frame callback is queued\<close>

lemma markDirty_oneFrame: "oneFrame s \<Longrightarrow> oneFrame (markDirty now s)"
  by (cases s) (auto simp add: oneFrame_def markDirty_def Let_def requestAnimationFrame_def split: if_splits)

lemma loop_oneFrame:
  assumes "rafQueue h = []" and "rafHandle c \<noteq> 0"
  shows "oneFrame (loop E tm bw bh scale (c, h))"
proof (cases "\<not> isDirty c \<or> stopped c")
  case True
  with assms show ?thesis by (auto simp add: loop_def oneFrame_def)
next
  case False
  let ?c2 = "c\<lparr>isDirty := False, prevTime := tm\<rparr>"
  have h: "rafHandle ?c2 \<noteq> 0" using assms by simp
  have "\<And>dt. rafQueue (snd (render E tm dt bw bh scale (?c2, h))) = []"
    using render_held_frame(8) [OF h] assms by simp
  with False show ?thesis
    by (simp add: loop_def oneFrame_def Let_def split_def requestAnimationFrame_def)
qed

lemma fire_oneFrame: "oneFrame s \<Longrightarrow> oneFrame (fire E tm bw bh scale s)"
proof (cases s)
  case (Pair c h)
  assume inv: "oneFrame s"
  show ?thesis
  proof (cases "rafQueue h")
    case Nil
    with Pair inv show ?thesis by (simp add: fire_def)
  next
    case (Cons q qs)
    with Pair inv have "qs = []" "rafHandle c \<noteq> 0"
      by (auto simp add: oneFrame_def split: if_splits)
    with Pair Cons show ?thesis
      using loop_oneFrame [of "h\<lparr>rafQueue := []\<rparr>" c E tm bw bh scale]
      by (simp add: fire_def)
  qed
qed

lemma step_oneFrame: "oneFrame s \<Longrightarrow> oneFrame (step E e s)"
proof (cases e)
  case (MarkDirty now)
  assume "oneFrame s" with MarkDirty show ?thesis by (simp add: markDirty_oneFrame)
next
  case (Frame tm bw bh scale)
  assume "oneFrame s" with Frame show ?thesis by (simp add: fire_oneFrame)
next
  case Destroy
  assume "oneFrame s" with Destroy show ?thesis
    by (cases s) (simp add: destroy_def oneFrame_def)
next
  case (SetData data now)
  assume inv: "oneFrame s"
  obtain c h where s: "s = (c, h)" by (cases s)
  have "oneFrame (bindData E data s)"
    using inv bindData_frame(1,7) [of E data s] by (simp add: oneFrame_def split_def)
  then show ?thesis
    using SetData by (simp add: setData_bindData markDirty_oneFrame)
next
  case (ResizeNotify now)
  assume inv: "oneFrame s"
  obtain c h where s: "s = (c, h)" by (cases s)
  have "oneFrame (c\<lparr>canvasSizeDirty := True\<rparr>, h)"
    using inv s by (simp add: oneFrame_def)
  then show ?thesis
    using ResizeNotify s by (simp add: resizeNotify_def markDirty_oneFrame)
next
  case (KeyDown key now)
  assume inv: "oneFrame s"
  obtain c h where s: "s = (c, h)" by (cases s)
  have "\<And>f. oneFrame (setWalkthrough f c, h)"
    using inv s by (simp add: oneFrame_def)
  then have *: "\<And>f. oneFrame (markDirty now (setWalkthrough f c, h))"
    by (rule markDirty_oneFrame)
  have **: "\<And>t a. oneFrame t \<Longrightarrow> oneFrame (fst t, (snd t)\<lparr>trace := a\<rparr>)"
    by (simp add: oneFrame_def split_def)
  from inv s show ?thesis
    unfolding KeyDown step.simps s keyDown_cases
    by (auto simp add: * **)
qed

lemma run_oneFrame: "oneFrame s \<Longrightarrow> oneFrame (run E es s)"
  by (induction es arbitrary: s) (simp_all add: step_oneFrame)

lemma CanvasRender_oneFrame: "oneFrame (CanvasRender E p0 data now w0 h0)"
  by (simp add: CanvasRender_def oneFrame_def)

lemma oneFrame_length: "oneFrame s \<Longrightarrow> length (rafQueue (snd s)) \<le> 1"
  by (cases s) (auto simp add: oneFrame_def split: if_splits)

lemma markDirty_request:
  assumes "oneFrame (c, h)" and "rafCount (snd (markDirty now (c, h))) \<noteq> rafCount h"
  shows "rafQueue h = []" and "rafCount (snd (markDirty now (c, h))) = Suc (rafCount h)"
  using assms
  by (cases "rafHandle c = 0"; auto simp add: oneFrame_def markDirty_held markDirty_free split: if_splits)+

lemma markDirty_live:
  assumes "oneFrame (c, h)" and "canvasData c \<noteq> None" and "\<not> stopped c"
  shows "length (rafQueue (snd (markDirty now (c, h)))) = 1"
  using assms
  by (cases "rafHandle c = 0") (auto simp add: oneFrame_def markDirty_held markDirty_free)

lemma fire_queued:
  assumes "oneFrame (c, h)" and "rafQueue h \<noteq> []"
  shows "fire E tm bw bh scale (c, h) = loop E tm bw bh scale (c, h\<lparr>rafQueue := []\<rparr>)"
    and "rafHandle c \<noteq> 0"
  using assms by (auto simp add: fire_def oneFrame_def split: if_splits list.splits)

subsection \<open>Render passes and the dirty flag\<close>

lemma markDirty_dirtyLogged: "dirtyLogged s \<Longrightarrow> dirtyLogged (markDirty now s)"
  by (cases s)
    (auto simp add: dirtyLogged_def markDirty_def Let_def requestAnimationFrame_def
      dirtyAfter_append rendersFollowMarks_append)

lemma loop_dirtyLogged:
  assumes "dirtyLogged (c, h)" and "rafHandle c \<noteq> 0"
  shows "dirtyLogged (loop E tm bw bh scale (c, h))"
proof (cases "\<not> isDirty c \<or> stopped c")
  case True
  with assms show ?thesis by (auto simp add: loop_def dirtyLogged_def)
next
  case False
  let ?c2 = "c\<lparr>isDirty := False, prevTime := tm\<rparr>"
  define dt where "dt = (if numSub E tm (prevTime c) < 8 then 16 else numSub E tm (prevTime c))"
  have held: "rafHandle ?c2 \<noteq> 0" using assms(2) by simp
  obtain k1 k2 where tr: "trace (snd (render E tm dt bw bh scale (?c2, h))) =
           trace h @ (if canvasSizeDirty ?c2
                     then [Resize (canvasAttr 300 (numMul E bw scale)) (canvasAttr 150 (numMul E bh scale))]
                     else [])
             @ [RunProgram tm dt] @ replicate k1 SetDirty @ [Notify] @ replicate k2 SetDirty"
    and d: "isDirty (fst (render E tm dt bw bh scale (?c2, h))) = (isDirty ?c2 \<or> 0 < k1 \<or> 0 < k2)"
    using render_held_trace [OF held, of E tm dt bw bh scale h] by blast
  have l: "loop E tm bw bh scale (c, h) =
    (let r = render E tm dt bw bh scale (?c2, h)
     in ((fst r)\<lparr>rafHandle := Suc (rafCount (snd r))\<rparr>,
         (snd r)\<lparr>rafCount := Suc (rafCount (snd r)), rafQueue := rafQueue (snd r) @ [Suc (rafCount (snd r))],
           trace := trace (snd r) @ [RequestFrame (Suc (rafCount (snd r)))]\<rparr>))"
    using False loop_dirty [of c E tm bw bh scale h] by (simp add: dt_def)
  show ?thesis
    unfolding l using assms(1) False tr d
    by (auto simp add: dirtyLogged_def Let_def dirtyAfter_append rendersFollowMarks_append
        dirtyAfter_replicate rendersFollowMarks_replicate)
qed

lemma step_dirtyLogged:
  assumes "oneFrame s" and "dirtyLogged s"
  shows "dirtyLogged (step E e s)"
proof -
  obtain c h where s: "s = (c, h)" by (cases s)
  show ?thesis
  proof (cases e)
    case (MarkDirty now)
    with assms show ?thesis by (simp add: markDirty_dirtyLogged)
  next
    case (Frame tm bw bh scale)
    show ?thesis
    proof (cases "rafQueue h = []")
      case True
      with Frame assms s show ?thesis by (simp add: fire_def)
    next
      case False
      have "dirtyLogged (c, h\<lparr>rafQueue := []\<rparr>)"
        using assms(2) s by (simp add: dirtyLogged_def)
      then have "dirtyLogged (loop E tm bw bh scale (c, h\<lparr>rafQueue := []\<rparr>))"
        using fire_queued(2) [of c h] assms(1) s False by (simp add: loop_dirtyLogged)
      then show ?thesis
        using Frame s fire_queued(1) [of c h] assms(1) False by simp
    qed
  next
    case Destroy
    with assms s show ?thesis by (simp add: destroy_def dirtyLogged_def)
  next
    case (SetData data now)
    obtain xs where "trace (snd (bindData E data s)) = trace (snd s) @ xs"
      and "\<forall>d. dirtyAfter d xs = d \<and> rendersFollowMarks d xs"
      using bindData_trace [of E data s] by blast
    then have "dirtyLogged (bindData E data s)"
      using assms(2) bindData_frame(2) [of E data s]
      by (simp add: dirtyLogged_def split_def dirtyAfter_append rendersFollowMarks_append)
    then show ?thesis
      using SetData by (simp add: setData_bindData markDirty_dirtyLogged)
  next
    case (ResizeNotify now)
    have "dirtyLogged (c\<lparr>canvasSizeDirty := True\<rparr>, h)"
      using assms(2) s by (simp add: dirtyLogged_def)
    then show ?thesis
      using ResizeNotify s by (simp add: resizeNotify_def markDirty_dirtyLogged)
  next
    case (KeyDown key now)
    have "\<And>f. dirtyLogged (setWalkthrough f c, h)"
      using assms(2) s by (simp add: dirtyLogged_def)
    then have *: "\<And>f. dirtyLogged (markDirty now (setWalkthrough f c, h))"
      by (rule markDirty_dirtyLogged)
    have **: "\<And>t. dirtyLogged t \<Longrightarrow> dirtyLogged (fst t, (snd t)\<lparr>trace := trace (snd t) @ [PreventDefault]\<rparr>)"
      by (simp add: dirtyLogged_def split_def dirtyAfter_append rendersFollowMarks_append)
    from assms s show ?thesis
      unfolding KeyDown step.simps s keyDown_cases
      by (auto simp add: * **)
  qed
qed

lemma run_dirtyLogged: "oneFrame s \<Longrightarrow> dirtyLogged s \<Longrightarrow> dirtyLogged (run E es s)"
  by (induction es arbitrary: s) (simp_all add: step_oneFrame step_dirtyLogged)

lemma CanvasRender_dirtyLogged: "dirtyLogged (CanvasRender E p0 data now w0 h0)"
  by (simp add: CanvasRender_def dirtyLogged_def)

subsection \<open>Before data is bound, and once destroyed\<close>

lemma step_unbound:
  assumes "canvasData (fst s) = None" and "rafQueue (snd s) = []" and "\<not> isSetData e"
  shows "schedView (step E e s) = schedView s"
proof -
  obtain c h where s: "s = (c, h)" by (cases s)
  have md: "\<And>c' h' now. canvasData c' = None \<Longrightarrow> markDirty now (c', h') = (c', h')"
    by (simp add: markDirty_noop)
  show ?thesis
  proof (cases e)
    case (MarkDirty now)
    with assms s show ?thesis by (simp add: md)
  next
    case (Frame tm bw bh scale)
    with assms s show ?thesis by (simp add: fire_def)
  next
    case Destroy
    with assms s show ?thesis by (simp add: destroy_def schedView_def)
  next
    case (SetData data now)
    with assms show ?thesis by simp
  next
    case (ResizeNotify now)
    with assms s show ?thesis by (simp add: resizeNotify_def md schedView_def)
  next
    case (KeyDown key now)
    with assms s show ?thesis by (simp add: keyDown_cases md schedView_def)
  qed
qed

lemma run_unbound:
  assumes "canvasData (fst s) = None" and "rafQueue (snd s) = []" and "\<forall>e \<in> set es. \<not> isSetData e"
  shows "schedView (run E es s) = schedView s"
  using assms
proof (induction es arbitrary: s)
  case Nil
  then show ?case by simp
next
  case (Cons e es)
  have v: "schedView (step E e s) = schedView s"
    using Cons.prems by (simp add: step_unbound)
  then have "canvasData (fst (step E e s)) = None" "rafQueue (snd (step E e s)) = []"
    using Cons.prems(1,2) by (simp_all add: schedView_def split_def)
  then have "schedView (run E es (step E e s)) = schedView (step E e s)"
    using Cons.IH Cons.prems(3) by simp
  with v show ?case by simp
qed

lemma step_stopped: "stopped (fst s) \<Longrightarrow> stopped (fst (step E e s))"
proof (cases e)
  case (Frame tm bw bh scale)
  assume "stopped (fst s)"
  with Frame show ?thesis
    by (cases s) (simp add: fire_def loop_def split: list.splits)
next
  case (SetData data now)
  assume "stopped (fst s)"
  with SetData show ?thesis
    using bindData_frame(3) [of E data s]
    by (simp add: setData_bindData markDirty_noop)
qed (cases s; simp add: markDirty_noop destroy_def resizeNotify_def keyDown_cases)+

lemma run_stopped: "stopped (fst s) \<Longrightarrow> stopped (fst (run E es s))"
  by (induction es arbitrary: s) (simp_all add: step_stopped)

subsection \<open>The model binding\<close>

lemma markDirty_engineView: "engineView (markDirty now s) = engineView s"
  using markDirty_progState [of now s] markDirty_frame(4,9) [of now s]
  by (simp add: engineView_def split_def)

lemma loop_engineView: "engineView (loop E tm bw bh scale s) = engineView s"
proof -
  obtain c h where s: "s = (c, h)" by (cases s)
  show ?thesis
  proof (cases "\<not> isDirty c \<or> stopped c")
    case True
    with s show ?thesis by (auto simp add: loop_def engineView_def)
  next
    case False
    with s show ?thesis
      by (simp add: loop_dirty Let_def engineView_def render_engine engineCalls_append)
  qed
qed

lemma step_engineView:
  assumes "\<And>data now. e = SetData data now \<Longrightarrow>
             dataAndModel data = None \<or> gptGpuModel (progState (fst s)) \<noteq> None"
  shows "engineView (step E e s) = engineView s"
proof -
  obtain c h where s: "s = (c, h)" by (cases s)
  show ?thesis
  proof (cases e)
    case (MarkDirty now)
    then show ?thesis by (simp add: markDirty_engineView)
  next
    case (Frame tm bw bh scale)
    have "\<And>qs. engineView (loop E tm bw bh scale (c, h\<lparr>rafQueue := qs\<rparr>)) = engineView (c, h)"
      by (simp add: loop_engineView) (simp add: engineView_def)
    then show ?thesis
      using Frame s by (simp add: fire_def split: list.splits)
  next
    case Destroy
    with s show ?thesis by (simp add: destroy_def engineView_def)
  next
    case (SetData data now)
    then have "dataAndModel data = None \<or> gptGpuModel (progState c) \<noteq> None"
      using assms s by simp
    then have "engineView (bindData E data (c, h)) = engineView (c, h)"
      by (auto simp add: bindData_def engineView_def split: option.splits)
    then show ?thesis
      using SetData s by (simp add: setData_bindData markDirty_engineView)
  next
    case (ResizeNotify now)
    have "engineView (c\<lparr>canvasSizeDirty := True\<rparr>, h) = engineView (c, h)"
      by (simp add: engineView_def)
    then show ?thesis
      using ResizeNotify s by (simp add: resizeNotify_def markDirty_engineView)
  next
    case (KeyDown key now)
    have *: "\<And>f. engineView (markDirty now (setWalkthrough f c, h)) = engineView (c, h)"
      by (simp add: markDirty_engineView) (simp add: engineView_def)
    have **: "\<And>t. engineView (fst t, (snd t)\<lparr>trace := trace (snd t) @ [PreventDefault]\<rparr>) = engineView t"
      by (simp add: engineView_def split_def engineCalls_append)
    show ?thesis
      unfolding KeyDown step.simps s keyDown_cases
      by (auto simp add: * **)
  qed
qed

lemma setData_engineView:
  assumes "dataAndModel data = Some d" and "gptGpuModel (progState (fst s)) = None"
  shows "engineView (setData E data now s) =
    (Some (forwardPass E d (random (fst s))),
     snd (setModelInputData E (initModel E d 1) (random (fst s))),
     engineCalls (trace (snd s)) @ forwardCalls E d (random (fst s)))"
proof -
  obtain c h where s: "s = (c, h)" by (cases s)
  have "engineView (bindData E data (c, h)) =
    (Some (forwardPass E d (random c)),
     snd (setModelInputData E (initModel E d 1) (random c)),
     engineCalls (trace h) @ forwardCalls E d (random c))"
    using assms s
    by (simp add: bindData_def engineView_def forwardPass_def forwardCalls_def engineCalls_append)
  then show ?thesis
    using s by (simp add: setData_bindData markDirty_engineView)
qed

lemma run_bound:
  assumes "gptGpuModel (progState (fst s)) \<noteq> None"
  shows "fst (engineView (run E es s)) = fst (engineView s) \<and>
         snd (snd (engineView (run E es s))) = snd (snd (engineView s))"
  using assms
proof (induction es arbitrary: s)
  case Nil
  then show ?case by simp
next
  case (Cons e es)
  have v: "engineView (step E e s) = engineView s"
    using Cons.prems by (simp add: step_engineView)
  then have "gptGpuModel (progState (fst (step E e s))) \<noteq> None"
    using Cons.prems by (simp add: engineView_def split_def)
  then show ?case
    using Cons.IH [of "step E e s"] v by simp
qed

lemma run_unboundModel:
  assumes "gptGpuModel (progState (fst s)) = None"
  shows "fst (engineView (run E es s)) = map_option (\<lambda>d. forwardPass E d (random (fst s))) (firstData es) \<and>
         snd (snd (engineView (run E es s))) =
           engineCalls (trace (snd s)) @
             (case firstData es of None \<Rightarrow> [] | Some d \<Rightarrow> forwardCalls E d (random (fst s)))"
  using assms
proof (induction es arbitrary: s)
  case Nil
  then show ?case by (simp add: engineView_def split_def)
next
  case (Cons e es)
  show ?case
  proof (cases "\<exists>data now d. e = SetData data now \<and> dataAndModel data = Some d")
    case True
    then obtain data now d where e: "e = SetData data now" and d: "dataAndModel data = Some d"
      by blast
    have v: "engineView (step E e s) =
      (Some (forwardPass E d (random (fst s))),
       snd (setModelInputData E (initModel E d 1) (random (fst s))),
       engineCalls (trace (snd s)) @ forwardCalls E d (random (fst s)))"
      using e setData_engineView [OF d Cons.prems] by simp
    then have "gptGpuModel (progState (fst (step E e s))) \<noteq> None"
      by (simp add: engineView_def split_def)
    then have "fst (engineView (run E es (step E e s))) = fst (engineView (step E e s)) \<and>
         snd (snd (engineView (run E es (step E e s)))) = snd (snd (engineView (step E e s)))"
      by (rule run_bound)
    with v e d show ?thesis by simp
  next
    case False
    then have v: "engineView (step E e s) = engineView s"
      by (intro step_engineView) (cases e; auto)
    then have n: "gptGpuModel (progState (fst (step E e s))) = None"
      and r: "random (fst (step E e s)) = random (fst s)"
      and t: "engineCalls (trace (snd (step E e s))) = engineCalls (trace (snd s))"
      using Cons.prems by (simp_all add: engineView_def split_def)
    have fd: "firstData (e # es) = firstData es"
      using False by (cases e) (auto split: option.splits)
    show ?thesis
      using Cons.IH [OF n] r t fd by (simp split: option.splits)
  qed
qed

lemma run_CanvasRender_engine:
  assumes "gptGpuModel p = None"
  shows "gptGpuModel (progState (fst (run E es (CanvasRender E p None t w h)))) =
        map_option (\<lambda>d. forwardPass E d (newRandom E 4)) (firstData es) \<and>
      engineCalls (trace (snd (run E es (CanvasRender E p None t w h)))) =
        (case firstData es of None \<Rightarrow> [] | Some d \<Rightarrow> forwardCalls E d (newRandom E 4))"
proof -
  have n: "gptGpuModel (progState (fst (CanvasRender E p None t w h))) = None"
    using assms by (simp add: CanvasRender_def)
  have r: "random (fst (CanvasRender E p None t w h)) = newRandom E 4"
    "engineCalls (trace (snd (CanvasRender E p None t w h))) = []"
    by (simp_all add: CanvasRender_def)
  show ?thesis
    using run_unboundModel [OF n, of E es] r
    by (simp add: engineView_def split_def split: option.splits)
qed

subsection \<open>The sample sessions, evaluated\<close>

lemma walkthroughOf_sampleSession:
  "walkthroughOf sampleSession = \<lparr>running = False, time = 0, phaseLength = 10\<rparr>"
  by (simp add: walkthroughOf_def sampleSession_def CanvasRender_def sampleProgState_def)

lemmas eval_defs =
  boundSession_def sampleSession_def sampleProgState_def sampleExt_def CanvasRender_def
  setData_def markDirty_def requestAnimationFrame_def destroy_def resizeNotify_def fire_def loop_def
  render_def Let_def canvasAttr_def toUnsignedLong_def

lemma boundSession_eval:
  "canvasData (fst boundSession) = Some \<lparr>dataAndModel = Some 7\<rparr>"
  "\<not> stopped (fst boundSession)"
  "isDirty (fst boundSession)"
  "prevTime (fst boundSession) = 1"
  "rafHandle (fst boundSession) = 1"
  "rafQueue (snd boundSession) = [1]"
  "rafCount (snd boundSession) = 1"
  "canvasSizeDirty (fst boundSession)"
  by (simp_all add: boundSession_def sampleSession_def CanvasRender_def setData_def markDirty_def
        requestAnimationFrame_def Let_def sampleExt_def)

lemma renderedSession_eval:
  "renderedSession = run sampleExt [SetData \<lparr>dataAndModel = Some 7\<rparr> 1, Frame 20 100 50 2]
      (CanvasRender sampleExt sampleProgState None 0 300 150)"
  "\<not> isDirty (fst renderedSession)"
  "\<not> stopped (fst renderedSession)"
  "\<not> canvasSizeDirty (fst renderedSession)"
  "rafQueue (snd renderedSession) = [2]"
  "rafCount (snd renderedSession) = 2"
  "width (snd renderedSession) = 200"
  "height (snd renderedSession) = 100"
  "render_size (progState (fst renderedSession)) = (200, 100)"
  "resizeCalls (trace (snd renderedSession)) = [(200, 100)]"
  "programCalls (trace (snd renderedSession)) = [(20, 19)]"
  by (simp_all add: renderedSession_def eval_defs)

lemma idleSession_eval:
  "idleSession = run sampleExt
      [SetData \<lparr>dataAndModel = Some 7\<rparr> 1, Frame 20 100 50 2, Frame 40 100 50 2]
      (CanvasRender sampleExt sampleProgState None 0 300 150)"
  "canvasData (fst idleSession) \<noteq> None"
  "\<not> stopped (fst idleSession)"
  "rafQueue (snd idleSession) = []"
  "rafCount (snd idleSession) = 2"
  by (simp_all add: idleSession_def renderedSession_def eval_defs)

section \<open>The claims\<close>

subsection \<open>C1: one frame callback for many calls of markDirty\<close>

text \<open>
  Claim C1. In every state that a session reaches from its construction, at most one frame
  callback is queued, and \<open>markDirty\<close> requests a callback only when none is queued, and
  then a single one. Any number of \<open>markDirty\<close> calls made in a row, before a frame
  callback fires, request and leave queued what the first of them alone does: one callback
  for all of them, not one per call. When the session has data bound and is not destroyed,
  which is when \<open>markDirty\<close> acts at all, exactly one callback is queued after the calls.
\<close>

theorem one_frame_pending:
  assumes "s = run E es (CanvasRender E p0 data t0 w0 h0)"
  shows "length (rafQueue (snd s)) \<le> 1 \<and>
    (rafCount (snd (markDirty now s)) \<noteq> rafCount (snd s) \<longrightarrow>
       rafQueue (snd s) = [] \<and> rafCount (snd (markDirty now s)) = Suc (rafCount (snd s))) \<and>
    rafQueue (snd (markDirtyAll (now # ts) s)) = rafQueue (snd (markDirty now s)) \<and>
    rafCount (snd (markDirtyAll (now # ts) s)) = rafCount (snd (markDirty now s)) \<and>
    (canvasData (fst s) \<noteq> None \<and> \<not> stopped (fst s) \<longrightarrow>
       length (rafQueue (snd (markDirtyAll (now # ts) s))) = 1)"
proof -
  obtain c h where s: "s = (c, h)" by (cases s)
  have inv: "oneFrame (c, h)"
    using assms s run_oneFrame [OF CanvasRender_oneFrame, of E es E p0 data t0 w0 h0] by simp
  have len: "length (rafQueue h) \<le> 1"
    using oneFrame_length [OF inv] by simp
  have req: "rafCount (snd (markDirty now (c, h))) \<noteq> rafCount h \<longrightarrow>
      rafQueue h = [] \<and> rafCount (snd (markDirty now (c, h))) = Suc (rafCount h)"
    using markDirty_request [OF inv] by blast
  have same: "rafQueue (snd (markDirtyAll (now # ts) (c, h))) = rafQueue (snd (markDirty now (c, h)))"
    "rafCount (snd (markDirtyAll (now # ts) (c, h))) = rafCount (snd (markDirty now (c, h)))"
    by (rule markDirtyAll_after_first)+
  have live: "canvasData c \<noteq> None \<and> \<not> stopped c \<longrightarrow>
      length (rafQueue (snd (markDirtyAll (now # ts) (c, h)))) = 1"
    using markDirty_live [OF inv] same(1) by simp
  show ?thesis
    unfolding s using len req same live by simp
qed

text \<open>
  Claim C1 on the idle sample session: nothing is queued, two callbacks were requested so
  far; three calls of \<open>markDirty\<close> request the third and no more.
\<close>

theorem one_frame_pending_witness:
  "idleSession = run sampleExt
      [SetData \<lparr>dataAndModel = Some 7\<rparr> 1, Frame 20 100 50 2, Frame 40 100 50 2]
      (CanvasRender sampleExt sampleProgState None 0 300 150) \<and>
   canvasData (fst idleSession) \<noteq> None \<and> \<not> stopped (fst idleSession) \<and>
   rafQueue (snd idleSession) = [] \<and> rafCount (snd idleSession) = 2 \<and>
   rafCount (snd (markDirty 50 idleSession)) = 3 \<and>
   length (rafQueue (snd (markDirtyAll [50, 51, 52] idleSession))) = 1 \<and>
   rafCount (snd (markDirtyAll [50, 51, 52] idleSession)) = 3"
proof -
  have m: "rafCount (snd (markDirty 50 idleSession)) = 3"
    by (simp add: idleSession_def renderedSession_def eval_defs)
  note th = one_frame_pending [OF idleSession_eval(1), of 50 "[51, 52]"]
  have l: "length (rafQueue (snd (markDirtyAll [50, 51, 52] idleSession))) = 1"
    using th idleSession_eval(2,3) by blast
  have e: "rafCount (snd (markDirtyAll [50, 51, 52] idleSession)) = rafCount (snd (markDirty 50 idleSession))"
    using th by blast
  have c: "rafCount (snd (markDirtyAll [50, 51, 52] idleSession)) = 3"
    by (simp only: e m)
  show ?thesis
    using m l c idleSession_eval by blast
qed

subsection \<open>C2: the delta time of a frame\<close>

text \<open>
  Claim C2. When a queued frame callback fires with timestamp \<open>tm\<close> in a reachable state
  whose dirty flag is set and which is not destroyed, the program step of the render pass is
  called once, with \<open>time = tm\<close> and with \<open>dt\<close> the difference of \<open>tm\<close> and \<open>prevTime\<close>
  as the host computes it, \<open>numSub E tm prevTime\<close>, if that difference is at least \<open>8\<close>,
  and \<open>dt = 16\<close> otherwise; \<open>prevTime\<close> is \<open>tm\<close> afterwards in both cases.
\<close>

theorem frame_delta_time:
  assumes "run E es (CanvasRender E p0 data t0 w0 h0) = (c, h)"
    and "rafQueue h \<noteq> []" and "isDirty c" and "\<not> stopped c"
  shows "programCalls (trace (snd (fire E tm bw bh scale (c, h)))) =
           programCalls (trace h) @
             [(tm, if 8 \<le> numSub E tm (prevTime c) then numSub E tm (prevTime c) else 16)] \<and>
         prevTime (fst (fire E tm bw bh scale (c, h))) = tm"
proof -
  have inv: "oneFrame (c, h)"
    using assms(1) run_oneFrame [OF CanvasRender_oneFrame, of E es E p0 data t0 w0 h0] by simp
  let ?c2 = "c\<lparr>isDirty := False, prevTime := tm\<rparr>"
  let ?h = "h\<lparr>rafQueue := []\<rparr>"
  have held: "rafHandle ?c2 \<noteq> 0"
    using fire_queued(2) [OF inv assms(2)] by simp
  have f: "fire E tm bw bh scale (c, h) = loop E tm bw bh scale (c, ?h)"
    using fire_queued(1) [OF inv assms(2)] .
  have pt: "\<And>dt. prevTime (fst (render E tm dt bw bh scale (?c2, ?h))) = tm"
    using render_held_frame(2) [OF held] by simp
  have pc: "\<And>dt. programCalls (trace (snd (render E tm dt bw bh scale (?c2, ?h)))) =
      programCalls (trace h) @ [(tm, dt)]"
  proof -
    fix dt
    obtain k1 k2 where "trace (snd (render E tm dt bw bh scale (?c2, ?h))) =
           trace ?h @ (if canvasSizeDirty ?c2
                     then [Resize (canvasAttr 300 (numMul E bw scale)) (canvasAttr 150 (numMul E bh scale))]
                     else [])
             @ [RunProgram tm dt] @ replicate k1 SetDirty @ [Notify] @ replicate k2 SetDirty"
      using render_held_trace [OF held, of E tm dt bw bh scale ?h] by blast
    then show "programCalls (trace (snd (render E tm dt bw bh scale (?c2, ?h)))) =
      programCalls (trace h) @ [(tm, dt)]"
      by (simp add: programCalls_append programCalls_replicate)
  qed
  show ?thesis
    unfolding f using assms(3,4) pt pc
    by (simp add: loop_dirty Let_def programCalls_append)
qed

text \<open>
  Claim C2 on the sample session with data bound, where \<open>prevTime = 1\<close>: a frame at
  \<open>4\<close>, three milliseconds later, renders with \<open>dt = 16\<close>; a frame at \<open>21\<close> renders with
  \<open>dt = 20\<close>.
\<close>

theorem frame_delta_time_witness:
  "run sampleExt [SetData \<lparr>dataAndModel = Some 7\<rparr> 1]
      (CanvasRender sampleExt sampleProgState None 0 300 150) = (fst boundSession, snd boundSession) \<and>
   rafQueue (snd boundSession) \<noteq> [] \<and> isDirty (fst boundSession) \<and> \<not> stopped (fst boundSession) \<and>
   prevTime (fst boundSession) = 1 \<and>
   programCalls (trace (snd (fire sampleExt 4 100 50 2 boundSession))) = [(4, 16)] \<and>
   prevTime (fst (fire sampleExt 4 100 50 2 boundSession)) = 4 \<and>
   programCalls (trace (snd (fire sampleExt 21 100 50 2 boundSession))) = [(21, 20)] \<and>
   prevTime (fst (fire sampleExt 21 100 50 2 boundSession)) = 21"
proof -
  have r: "run sampleExt [SetData \<lparr>dataAndModel = Some 7\<rparr> 1]
      (CanvasRender sampleExt sampleProgState None 0 300 150) = (fst boundSession, snd boundSession)"
    by (simp add: boundSession_def sampleSession_def)
  have q: "rafQueue (snd boundSession) \<noteq> []" "isDirty (fst boundSession)" "\<not> stopped (fst boundSession)"
    by (simp_all add: boundSession_eval)
  have t: "programCalls (trace (snd boundSession)) = []"
    by (simp add: eval_defs)
  have n: "numSub sampleExt 4 1 = 3" "numSub sampleExt 21 1 = 20"
    by (simp_all add: sampleExt_def)
  show ?thesis
    using r q t frame_delta_time [OF r q, of 4 100 50 2] frame_delta_time [OF r q, of 21 100 50 2]
    by (simp add: boundSession_eval(4) n)
qed

subsection \<open>C3: the walkthrough commands\<close>

text \<open>
  Claim C3. In every state of a session, a key bound to Toggle replaces the walkthrough by
  the same walkthrough with \<open>running\<close> negated; a key bound to Reset sets \<open>running\<close> to
  false and \<open>time\<close> to \<open>0\<close>; a key bound to Skip-to-end sets \<open>running\<close> to false and
  \<open>time\<close> to \<open>phaseLength\<close>; every other field of the walkthrough, \<open>phaseLength\<close> among
  them, is as before. From a walkthrough with \<open>running = False\<close>, \<open>time = 0\<close> and
  \<open>phaseLength = 10\<close>, Toggle gives \<open>running = True\<close>, then Reset gives \<open>running = False\<close>,
  \<open>time = 0\<close>, then Skip-to-end gives \<open>running = False\<close>, \<open>time = 10\<close>.
\<close>

theorem walkthrough_commands:
  "(key \<in> set (keysOf Toggle) \<longrightarrow>
      walkthroughOf (keyDown key now s) = (walkthroughOf s)\<lparr>running := \<not> running (walkthroughOf s)\<rparr>) \<and>
   (key \<in> set (keysOf Reset) \<longrightarrow>
      walkthroughOf (keyDown key now s) = (walkthroughOf s)\<lparr>running := False, time := 0\<rparr>) \<and>
   (key \<in> set (keysOf SkipToEnd) \<longrightarrow>
      walkthroughOf (keyDown key now s) =
        (walkthroughOf s)\<lparr>running := False, time := phaseLength (walkthroughOf s)\<rparr>) \<and>
   phaseLength (walkthroughOf (keyDown key now s)) = phaseLength (walkthroughOf s) \<and>
   (walkthroughOf s = \<lparr>running = False, time = 0, phaseLength = 10, \<dots> = x\<rparr> \<longrightarrow>
      walkthroughOf (keyDown '' '' t1 s) = \<lparr>running = True, time = 0, phaseLength = 10, \<dots> = x\<rparr> \<and>
      walkthroughOf (keyDown ''Backspace'' t2 (keyDown '' '' t1 s)) =
        \<lparr>running = False, time = 0, phaseLength = 10, \<dots> = x\<rparr> \<and>
      walkthroughOf (keyDown ''f'' t3 (keyDown ''Backspace'' t2 (keyDown '' '' t1 s))) =
        \<lparr>running = False, time = 10, phaseLength = 10, \<dots> = x\<rparr>)"
  by (simp add: walkthroughOf_keyDown Let_def)

text \<open>
  Claim C3 on the sample session, whose walkthrough is the one of the example.
\<close>

theorem walkthrough_commands_witness:
  "'' '' \<in> set (keysOf Toggle) \<and> ''Delete'' \<in> set (keysOf Reset) \<and> ''F'' \<in> set (keysOf SkipToEnd) \<and>
   walkthroughOf (keyDown '' '' 1 sampleSession) = \<lparr>running = True, time = 0, phaseLength = 10\<rparr> \<and>
   walkthroughOf (keyDown ''Delete'' 1 sampleSession) = \<lparr>running = False, time = 0, phaseLength = 10\<rparr> \<and>
   walkthroughOf (keyDown ''F'' 1 sampleSession) = \<lparr>running = False, time = 10, phaseLength = 10\<rparr> \<and>
   walkthroughOf (keyDown ''f'' 3 (keyDown ''Backspace'' 2 (keyDown '' '' 1 sampleSession))) =
     \<lparr>running = False, time = 10, phaseLength = 10\<rparr>"
  using walkthrough_commands [of "'' ''" 1 sampleSession "()" 1 2 3]
    walkthrough_commands [of "''Delete''" 1 sampleSession "()" 1 2 3]
    walkthrough_commands [of "''F''" 1 sampleSession "()" 1 2 3]
  by (simp add: walkthroughOf_sampleSession)

subsection \<open>C4: a frame callback after destroy\<close>

text \<open>
  Claim C4, as stated, fails: the sample session was destroyed while its frame callback was
  queued; when that callback fires, the scheduler object is not what it was, because
  \<open>loop\<close> resets \<open>rafHandle\<close>.
\<close>

theorem loop_after_destroy_counterexample:
  "stopped (fst destroyedSession) \<and> rafQueue (snd destroyedSession) = [1] \<and>
   fst (fire sampleExt 20 100 50 2 destroyedSession) \<noteq> fst destroyedSession"
  by (simp add: destroyedSession_def sampleSession_def CanvasRender_def setData_def markDirty_def
        requestAnimationFrame_def destroy_def Let_def fire_def loop_def)

text \<open>
  Claim C4, amended. Once \<open>destroy\<close> has been called the session stays stopped, and a frame
  callback that fires then changes no field of the scheduler other than \<open>rafHandle\<close>, which
  it resets to \<open>0\<close>; it renders nothing, extends the trace by nothing and requests no
  further frame callback. The host only takes the fired callback off its queue.
\<close>

theorem loop_after_destroy:
  "stopped (fst (run E es (destroy s))) \<and>
   (stopped c \<longrightarrow>
      loop E tm bw bh scale (c, h) = (c\<lparr>rafHandle := 0\<rparr>, h) \<and>
      fire E tm bw bh scale (c, h) =
        (if rafQueue h = [] then (c, h) else (c\<lparr>rafHandle := 0\<rparr>, h\<lparr>rafQueue := tl (rafQueue h)\<rparr>)))"
proof -
  have "stopped (fst (destroy s))"
    by (cases s) (simp add: destroy_def)
  then have "stopped (fst (run E es (destroy s)))"
    by (rule run_stopped)
  then show ?thesis
    by (simp add: loop_def fire_def split: list.splits)
qed

text \<open>
  Claim C4, amended, on the destroyed sample session.
\<close>

theorem loop_after_destroy_witness:
  "stopped (fst destroyedSession) \<and>
   fire sampleExt 20 100 50 2 destroyedSession =
     ((fst destroyedSession)\<lparr>rafHandle := 0\<rparr>, (snd destroyedSession)\<lparr>rafQueue := []\<rparr>)"
proof -
  have st: "stopped (fst destroyedSession)" "rafQueue (snd destroyedSession) = [1]"
    by (simp_all add: destroyedSession_def sampleSession_def CanvasRender_def setData_def markDirty_def
        requestAnimationFrame_def destroy_def Let_def)
  show ?thesis
    using st loop_after_destroy [of sampleExt "[]" sampleSession "fst destroyedSession" 20 100 50 2 "snd destroyedSession"]
    by simp
qed

subsection \<open>C5: repeating a command\<close>

text \<open>
  Claim C5, as stated, fails for Toggle: pressing the toggle key twice does not leave the
  walkthrough as one press does.
\<close>

theorem toggle_twice_counterexample:
  "walkthroughOf (keyDown '' '' 2 (keyDown '' '' 1 sampleSession)) \<noteq>
   walkthroughOf (keyDown '' '' 1 sampleSession)"
  by (simp add: walkthroughOf_keyDown walkthroughOf_sampleSession Let_def)

text \<open>
  Claim C5, amended. Reset and Skip-to-end are idempotent on the walkthrough: in every state,
  applying the command twice in a row leaves the walkthrough as applying it once does.
  Toggle is an involution: applying it twice in a row gives back the walkthrough it started
  from. The handler is defined in every state; while no session is held it changes nothing.
\<close>

theorem command_repetition:
  fixes s :: "('w, 'd, 'm, 'g) session"
  shows
  "(key \<in> set (keysOf Reset) \<union> set (keysOf SkipToEnd) \<longrightarrow>
      walkthroughOf (keyDown key t2 (keyDown key t1 s)) = walkthroughOf (keyDown key t1 s)) \<and>
   (key \<in> set (keysOf Toggle) \<longrightarrow>
      walkthroughOf (keyDown key t2 (keyDown key t1 s)) = walkthroughOf s) \<and>
   handleKeyDown key now (None :: ('w, 'd, 'm, 'g) canvas_render option, snd s) = (None, snd s)"
  by (auto simp add: walkthroughOf_keyDown Let_def handleKeyDown_def)

text \<open>
  Claim C5, amended, on the sample session.
\<close>

theorem command_repetition_witness:
  "''Backspace'' \<in> set (keysOf Reset) \<union> set (keysOf SkipToEnd) \<and> '' '' \<in> set (keysOf Toggle) \<and>
   walkthroughOf (keyDown ''Backspace'' 2 (keyDown ''Backspace'' 1 sampleSession)) =
     walkthroughOf (keyDown ''Backspace'' 1 sampleSession) \<and>
   walkthroughOf (keyDown '' '' 2 (keyDown '' '' 1 sampleSession)) = walkthroughOf sampleSession"
  using command_repetition [of "''Backspace''" 2 1 sampleSession 0]
    command_repetition [of "'' ''" 2 1 sampleSession 0]
  by simp

subsection \<open>C6: resize notifications are coalesced\<close>

text \<open>
  Claim C6. After any number of resize notifications, at least one or else with the size-dirty
  flag set before, a frame callback that finds the session dirty and not destroyed performs
  exactly one resize: the trace gains one resize entry, and the backing surface and
  \<open>render.size\<close> are sized from the box measured in that render pass times the
  pixel-density ratio, namely the two products as the host computes them and as the canvas
  element keeps them in its integer \<open>width\<close> and \<open>height\<close>; the size-dirty flag is clear
  afterwards. A render pass that finds the size-dirty flag clear performs no resize and
  leaves the sizes as they are.
\<close>

theorem resize_coalescing:
  "((ts \<noteq> [] \<or> canvasSizeDirty (fst s)) \<and>
    isDirty (fst (resizeNotifyAll ts s)) \<and> \<not> stopped (fst (resizeNotifyAll ts s)) \<longrightarrow>
      resizeCalls (trace (snd (loop E tm bw bh scale (resizeNotifyAll ts s)))) =
        resizeCalls (trace (snd s)) @
          [(canvasAttr 300 (numMul E bw scale), canvasAttr 150 (numMul E bh scale))] \<and>
      width (snd (loop E tm bw bh scale (resizeNotifyAll ts s))) = canvasAttr 300 (numMul E bw scale) \<and>
      height (snd (loop E tm bw bh scale (resizeNotifyAll ts s))) = canvasAttr 150 (numMul E bh scale) \<and>
      render_size (progState (fst (loop E tm bw bh scale (resizeNotifyAll ts s)))) =
        (canvasAttr 300 (numMul E bw scale), canvasAttr 150 (numMul E bh scale)) \<and>
      \<not> canvasSizeDirty (fst (loop E tm bw bh scale (resizeNotifyAll ts s)))) \<and>
   (\<not> canvasSizeDirty c \<longrightarrow>
      resizeCalls (trace (snd (render E tm' dt bw' bh' scale' (c, h)))) = resizeCalls (trace h) \<and>
      width (snd (render E tm' dt bw' bh' scale' (c, h))) = width h \<and>
      height (snd (render E tm' dt bw' bh' scale' (c, h))) = height h \<and>
      render_size (progState (fst (render E tm' dt bw' bh' scale' (c, h)))) = render_size (progState c) \<and>
      \<not> canvasSizeDirty (fst (render E tm' dt bw' bh' scale' (c, h))))"
proof -
  obtain c1 h1 where s1: "resizeNotifyAll ts s = (c1, h1)"
    by (cases "resizeNotifyAll ts s")
  have tr: "resizeCalls (trace h1) = resizeCalls (trace (snd s))"
    using resizeNotifyAll_frame(1) [of ts s] s1 by simp
  have fl: "ts \<noteq> [] \<or> canvasSizeDirty (fst s) \<Longrightarrow> canvasSizeDirty c1"
    using resizeNotifyAll_frame(2) [of ts s] s1 by simp
  show ?thesis
    unfolding s1 using tr fl
    by (auto simp add: loop_dirty Let_def render_resize resizeCalls_append)
qed

text \<open>
  Claim C6 on the sample session that has rendered once, at \<open>200\<close> by \<open>100\<close>, and whose
  size-dirty flag is clear: three notifications set the flag, and the next frame, with a box
  of \<open>100.5\<close> by \<open>50.25\<close> at ratio \<open>1.5\<close>, performs the single resize to \<open>150\<close> by
  \<open>75\<close>. Without a notification a render pass with that box leaves the size at \<open>200\<close> by
  \<open>100\<close>.
\<close>

theorem resize_coalescing_witness:
  "\<not> canvasSizeDirty (fst renderedSession) \<and>
   [42, 43, 44] \<noteq> ([] :: real list) \<and>
   canvasSizeDirty (fst (resizeNotifyAll [42, 43, 44] renderedSession)) \<and>
   isDirty (fst (resizeNotifyAll [42, 43, 44] renderedSession)) \<and>
   \<not> stopped (fst (resizeNotifyAll [42, 43, 44] renderedSession)) \<and>
   resizeCalls (trace (snd (loop sampleExt 60 (201 / 2) (201 / 4) (3 / 2)
       (resizeNotifyAll [42, 43, 44] renderedSession)))) = [(200, 100), (150, 75)] \<and>
   width (snd (loop sampleExt 60 (201 / 2) (201 / 4) (3 / 2)
       (resizeNotifyAll [42, 43, 44] renderedSession))) = 150 \<and>
   height (snd (loop sampleExt 60 (201 / 2) (201 / 4) (3 / 2)
       (resizeNotifyAll [42, 43, 44] renderedSession))) = 75 \<and>
   render_size (progState (fst (loop sampleExt 60 (201 / 2) (201 / 4) (3 / 2)
       (resizeNotifyAll [42, 43, 44] renderedSession)))) = (150, 75) \<and>
   resizeCalls (trace (snd (render sampleExt 60 20 (201 / 2) (201 / 4) (3 / 2)
       (fst renderedSession, snd renderedSession)))) = [(200, 100)] \<and>
   width (snd (render sampleExt 60 20 (201 / 2) (201 / 4) (3 / 2)
       (fst renderedSession, snd renderedSession))) = 200 \<and>
   height (snd (render sampleExt 60 20 (201 / 2) (201 / 4) (3 / 2)
       (fst renderedSession, snd renderedSession))) = 100"
proof -
  have d: "canvasSizeDirty (fst (resizeNotifyAll [42, 43, 44] renderedSession))"
    "isDirty (fst (resizeNotifyAll [42, 43, 44] renderedSession))"
    "\<not> stopped (fst (resizeNotifyAll [42, 43, 44] renderedSession))"
    by (simp_all add: renderedSession_def eval_defs)
  have m: "canvasAttr 300 (numMul sampleExt (201 / 2) (3 / 2)) = 150"
    "canvasAttr 150 (numMul sampleExt (201 / 4) (3 / 2)) = 75"
    by (simp_all add: sampleExt_def canvasAttr_def toUnsignedLong_def)
  note th = resize_coalescing [of "[42, 43, 44]" renderedSession sampleExt 60 "201 / 2" "201 / 4" "3 / 2"
        "fst renderedSession" 60 20 "201 / 2" "201 / 4" "3 / 2" "snd renderedSession"]
  show ?thesis
    using d m renderedSession_eval(4,7,8,10) th
    by (simp del: resizeNotifyAll.simps)
qed

subsection \<open>C7: the loop does not renew itself while idle\<close>

text \<open>
  Claim C7. In every reachable state, a frame callback that finds the dirty flag clear, or
  the session destroyed, leaves the host as it is: it requests no frame callback, and after
  the queued callback has fired the queue is empty. In the trace of every execution, each
  render pass comes after a \<open>SetDirty\<close> of \<open>markDirty\<close> that is later than the previous
  render pass.
\<close>

theorem idle_loop_stops:
  assumes "run E es (CanvasRender E p0 data t0 w0 h0) = (c, h)"
  shows "(\<not> isDirty c \<or> stopped c \<longrightarrow>
            snd (loop E tm bw bh scale (c, h)) = h \<and>
            rafQueue (snd (fire E tm bw bh scale (c, h))) = [] \<and>
            rafCount (snd (fire E tm bw bh scale (c, h))) = rafCount h \<and>
            trace (snd (fire E tm bw bh scale (c, h))) = trace h) \<and>
         rendersFollowMarks False (trace h)"
proof -
  have inv: "oneFrame (c, h)"
    using assms run_oneFrame [OF CanvasRender_oneFrame, of E es E p0 data t0 w0 h0] by simp
  have "dirtyLogged (run E es (CanvasRender E p0 data t0 w0 h0))"
    by (rule run_dirtyLogged [OF CanvasRender_oneFrame CanvasRender_dirtyLogged])
  then have r: "rendersFollowMarks False (trace h)"
    using assms by (simp add: dirtyLogged_def)
  have q: "length (rafQueue h) \<le> 1"
    using inv by (auto simp add: oneFrame_def split: if_splits)
  have "\<not> isDirty c \<or> stopped c \<Longrightarrow>
            snd (loop E tm bw bh scale (c, h)) = h \<and>
            rafQueue (snd (fire E tm bw bh scale (c, h))) = [] \<and>
            rafCount (snd (fire E tm bw bh scale (c, h))) = rafCount h \<and>
            trace (snd (fire E tm bw bh scale (c, h))) = trace h"
    using q by (cases "rafQueue h") (auto simp add: loop_def fire_def)
  with r show ?thesis by blast
qed

text \<open>
  Claim C7 on the sample session that has just rendered: its next frame finds the flag
  clear, and the queue is empty afterwards.
\<close>

theorem idle_loop_stops_witness:
  "run sampleExt [SetData \<lparr>dataAndModel = Some 7\<rparr> 1, Frame 20 100 50 2]
      (CanvasRender sampleExt sampleProgState None 0 300 150) = (fst renderedSession, snd renderedSession) \<and>
   \<not> isDirty (fst renderedSession) \<and>
   rafQueue (snd renderedSession) = [2] \<and>
   rafQueue (snd (fire sampleExt 40 100 50 2 (fst renderedSession, snd renderedSession))) = [] \<and>
   rafCount (snd (fire sampleExt 40 100 50 2 (fst renderedSession, snd renderedSession))) = 2 \<and>
   rendersFollowMarks False (trace (snd renderedSession))"
proof -
  have r: "run sampleExt [SetData \<lparr>dataAndModel = Some 7\<rparr> 1, Frame 20 100 50 2]
      (CanvasRender sampleExt sampleProgState None 0 300 150) = (fst renderedSession, snd renderedSession)"
    using renderedSession_eval(1) by simp
  show ?thesis
    using r renderedSession_eval(2,5,6) idle_loop_stops [OF r, of 40 100 50 2]
    by simp
qed

subsection \<open>C8: input data is generated before the model runs\<close>

text \<open>
  Claim C8. When \<open>setData\<close> receives data and no model is bound, it calls \<open>initModel\<close> with
  batch size \<open>1\<close>, then \<open>setModelInputData\<close> on the model that call returned, with the
  session's generator, then \<open>runModel\<close> on the model with its input written, in this order
  within the one call, and binds the result. In every execution the engine calls come in
  such groups of three, so no \<open>runModel\<close> call comes before the \<open>setModelInputData\<close> call
  on its model.
\<close>

theorem setData_call_order:
  "(dataAndModel data = Some d \<and> gptGpuModel (progState c) = None \<longrightarrow>
      engineCalls (trace (snd (setData E data now (c, h)))) =
        engineCalls (trace h) @
          [InitModel d 1, SetModelInputData (initModel E d 1) (random c),
           RunModel (fst (setModelInputData E (initModel E d 1) (random c)))] \<and>
      gptGpuModel (progState (fst (setData E data now (c, h)))) =
        Some (runModel E (fst (setModelInputData E (initModel E d 1) (random c))))) \<and>
   callOrder E (engineCalls (trace (snd (run E es (CanvasRender E p0 data0 t0 w0 h0)))))"
proof -
  have one: "dataAndModel data = Some d \<and> gptGpuModel (progState c) = None \<longrightarrow>
      engineCalls (trace (snd (setData E data now (c, h)))) =
        engineCalls (trace h) @
          [InitModel d 1, SetModelInputData (initModel E d 1) (random c),
           RunModel (fst (setModelInputData E (initModel E d 1) (random c)))] \<and>
      gptGpuModel (progState (fst (setData E data now (c, h)))) =
        Some (runModel E (fst (setModelInputData E (initModel E d 1) (random c))))"
    using setData_engineView [of data d "(c, h)" E now]
    by (auto simp add: engineView_def split_def forwardPass_def forwardCalls_def)
  let ?s0 = "CanvasRender E p0 data0 t0 w0 h0"
  have t0: "engineCalls (trace (snd ?s0)) = []"
    by (simp add: CanvasRender_def)
  have "callOrder E (engineCalls (trace (snd (run E es ?s0))))"
  proof (cases "gptGpuModel (progState (fst ?s0)) = None")
    case True
    have "engineCalls (trace (snd (run E es ?s0))) =
        (case firstData es of None \<Rightarrow> [] | Some d \<Rightarrow> forwardCalls E d (random (fst ?s0)))"
      using run_unboundModel [OF True, of E es] t0 by (simp add: engineView_def split_def)
    then show ?thesis
      by (simp add: forwardCalls_def split: option.splits)
  next
    case False
    have "engineCalls (trace (snd (run E es ?s0))) = []"
      using run_bound [OF False, of E es] t0 by (simp add: engineView_def split_def)
    then show ?thesis by simp
  qed
  with one show ?thesis by blast
qed

text \<open>
  Claim C8 on the sample session, with the sample engine.
\<close>

theorem setData_call_order_witness:
  "dataAndModel \<lparr>dataAndModel = Some (7 :: nat)\<rparr> = Some 7 \<and>
   gptGpuModel (progState (fst sampleSession)) = None \<and>
   engineCalls (trace (snd (setData sampleExt \<lparr>dataAndModel = Some 7\<rparr> 1 sampleSession))) =
     [InitModel 7 1, SetModelInputData [7, 1] 4, RunModel [4, 7, 1]] \<and>
   gptGpuModel (progState (fst (setData sampleExt \<lparr>dataAndModel = Some 7\<rparr> 1 sampleSession))) =
     Some [0, 4, 7, 1]"
proof -
  have s: "sampleSession = (fst sampleSession, snd sampleSession)" by simp
  have v: "gptGpuModel (progState (fst sampleSession)) = None" "random (fst sampleSession) = 4"
    "trace (snd sampleSession) = []"
    by (simp_all add: sampleSession_def CanvasRender_def sampleProgState_def sampleExt_def)
  show ?thesis
    using v setData_call_order [of "\<lparr>dataAndModel = Some 7\<rparr>" 7 "fst sampleSession" sampleExt 1
        "snd sampleSession" "[]" sampleProgState None 0 300 150]
    by (simp add: sampleExt_def)
qed

subsection \<open>C9: the bound model does not depend on timing\<close>

text \<open>
  Claim C9. The constructor creates the generator with seed \<open>4\<close>. Two sessions that start
  with no model bound and whose executions, whatever their events and timestamps, first bind
  the same data make the same engine calls with the same arguments, the generator fresh from
  seed \<open>4\<close> among them, and end with the same bound model: the one that \<open>setModelInputData\<close>
  and \<open>runModel\<close> compute from that data and that generator.
\<close>

theorem forward_pass_deterministic:
  assumes "gptGpuModel p1 = None" and "gptGpuModel p2 = None" and "firstData es1 = firstData es2"
  shows "random (fst (CanvasRender E p1 None t1 w1 h1)) = newRandom E 4 \<and>
    gptGpuModel (progState (fst (run E es1 (CanvasRender E p1 None t1 w1 h1)))) =
      gptGpuModel (progState (fst (run E es2 (CanvasRender E p2 None t2 w2 h2)))) \<and>
    engineCalls (trace (snd (run E es1 (CanvasRender E p1 None t1 w1 h1)))) =
      engineCalls (trace (snd (run E es2 (CanvasRender E p2 None t2 w2 h2)))) \<and>
    gptGpuModel (progState (fst (run E es1 (CanvasRender E p1 None t1 w1 h1)))) =
      map_option (\<lambda>d. forwardPass E d (newRandom E 4)) (firstData es1) \<and>
    engineCalls (trace (snd (run E es1 (CanvasRender E p1 None t1 w1 h1)))) =
      (case firstData es1 of None \<Rightarrow> [] | Some d \<Rightarrow> forwardCalls E d (newRandom E 4))"
proof -
  have "random (fst (CanvasRender E p1 None t1 w1 h1)) = newRandom E 4"
    by (simp add: CanvasRender_def)
  then show ?thesis
    using run_CanvasRender_engine [OF assms(1), of E es1 t1 w1 h1]
      run_CanvasRender_engine [OF assms(2), of E es2 t2 w2 h2] assms(3)
    by simp
qed

text \<open>
  Claim C9 on two sample executions with different events and timestamps.
\<close>

theorem forward_pass_deterministic_witness:
  "gptGpuModel sampleProgState = None \<and>
   firstData [SetData \<lparr>dataAndModel = Some (7 :: nat)\<rparr> 1] =
     firstData [ResizeNotify 3, SetData \<lparr>dataAndModel = None\<rparr> 5, KeyDown '' '' 6,
       SetData \<lparr>dataAndModel = Some 7\<rparr> 9, Frame 30 10 10 1, SetData \<lparr>dataAndModel = Some 8\<rparr> 40] \<and>
   gptGpuModel (progState (fst (run sampleExt [SetData \<lparr>dataAndModel = Some 7\<rparr> 1]
       (CanvasRender sampleExt sampleProgState None 0 300 150)))) =
   gptGpuModel (progState (fst (run sampleExt
       [ResizeNotify 3, SetData \<lparr>dataAndModel = None\<rparr> 5, KeyDown '' '' 6,
        SetData \<lparr>dataAndModel = Some 7\<rparr> 9, Frame 30 10 10 1, SetData \<lparr>dataAndModel = Some 8\<rparr> 40]
       (CanvasRender sampleExt sampleProgState None 2 640 480)))) \<and>
   gptGpuModel (progState (fst (run sampleExt [SetData \<lparr>dataAndModel = Some 7\<rparr> 1]
       (CanvasRender sampleExt sampleProgState None 0 300 150)))) = Some [0, 4, 7, 1]"
proof -
  have p: "gptGpuModel sampleProgState = None"
    by (simp add: sampleProgState_def)
  have f: "firstData [SetData \<lparr>dataAndModel = Some (7 :: nat)\<rparr> 1] =
     firstData [ResizeNotify 3, SetData \<lparr>dataAndModel = None\<rparr> 5, KeyDown '' '' 6,
       SetData \<lparr>dataAndModel = Some 7\<rparr> 9, Frame 30 10 10 1, SetData \<lparr>dataAndModel = Some 8\<rparr> 40]"
    by simp
  have v: "map_option (\<lambda>d. forwardPass sampleExt d (newRandom sampleExt 4))
      (firstData [SetData \<lparr>dataAndModel = Some (7 :: nat)\<rparr> 1]) = Some [0, 4, 7, 1]"
    by (simp add: forwardPass_def sampleExt_def)
  note th = forward_pass_deterministic [OF p p f, of sampleExt 0 300 150 2 640 480]
  have a: "gptGpuModel (progState (fst (run sampleExt [SetData \<lparr>dataAndModel = Some 7\<rparr> 1]
       (CanvasRender sampleExt sampleProgState None 0 300 150)))) =
   gptGpuModel (progState (fst (run sampleExt
       [ResizeNotify 3, SetData \<lparr>dataAndModel = None\<rparr> 5, KeyDown '' '' 6,
        SetData \<lparr>dataAndModel = Some 7\<rparr> 9, Frame 30 10 10 1, SetData \<lparr>dataAndModel = Some 8\<rparr> 40]
       (CanvasRender sampleExt sampleProgState None 2 640 480))))"
    using th by blast
  have c: "gptGpuModel (progState (fst (run sampleExt [SetData \<lparr>dataAndModel = Some 7\<rparr> 1]
       (CanvasRender sampleExt sampleProgState None 0 300 150)))) =
     map_option (\<lambda>d. forwardPass sampleExt d (newRandom sampleExt 4))
      (firstData [SetData \<lparr>dataAndModel = Some (7 :: nat)\<rparr> 1])"
    using th by blast
  have b: "gptGpuModel (progState (fst (run sampleExt [SetData \<lparr>dataAndModel = Some 7\<rparr> 1]
       (CanvasRender sampleExt sampleProgState None 0 300 150)))) = Some [0, 4, 7, 1]"
    by (simp only: c v)
  show ?thesis
    using p f a b by blast
qed

subsection \<open>C10: markDirty without data or after destroy\<close>

text \<open>
  Claim C10. While \<open>canvasData\<close> is \<open>null\<close> or after \<open>destroy\<close>, \<open>markDirty\<close> changes
  nothing at all. A session is constructed without data, and as long as no \<open>setData\<close> call
  is among the events, key presses and resize notifications included, \<open>canvasData\<close> stays
  \<open>null\<close>, the dirty flag stays clear, \<open>prevTime\<close> stays at its initial value, no handle is
  held, and no frame callback was requested or is queued.
\<close>

theorem markDirty_guard:
  "(canvasData c = None \<or> stopped c \<longrightarrow> markDirty now (c, h) = (c, h)) \<and>
   ((\<forall>e \<in> set es. \<not> isSetData e) \<longrightarrow>
      schedView (run E es (CanvasRender E p0 None t0 w0 h0)) = (None, False, t0, 0, 0, []))"
proof -
  have "schedView (CanvasRender E p0 None t0 w0 h0) = (None, False, t0, 0, 0, [])"
    by (simp add: schedView_def CanvasRender_def)
  moreover have "(\<forall>e \<in> set es. \<not> isSetData e) \<Longrightarrow>
      schedView (run E es (CanvasRender E p0 None t0 w0 h0)) = schedView (CanvasRender E p0 None t0 w0 h0)"
    by (rule run_unbound) (simp_all add: CanvasRender_def)
  ultimately show ?thesis
    using markDirty_noop [of "(c, h)" now] by auto
qed

text \<open>
  Claim C10 on the destroyed sample session and on a session without data that receives a
  key press, a resize notification, a call of \<open>markDirty\<close> and a frame.
\<close>

theorem markDirty_guard_witness:
  "stopped (fst destroyedSession) \<and>
   markDirty 5 (fst destroyedSession, snd destroyedSession) = (fst destroyedSession, snd destroyedSession) \<and>
   schedView (run sampleExt [KeyDown '' '' 1, ResizeNotify 2, MarkDirty 3, Frame 4 100 50 2]
       (CanvasRender sampleExt sampleProgState None 0 300 150)) = (None, False, 0, 0, 0, [])"
proof -
  have st: "stopped (fst destroyedSession)"
    by (simp add: destroyedSession_def sampleSession_def CanvasRender_def setData_def markDirty_def
        requestAnimationFrame_def destroy_def Let_def)
  have ev: "\<forall>e \<in> set [KeyDown '' '' 1, ResizeNotify 2, MarkDirty 3, Frame 4 100 50 2 :: nat event]. \<not> isSetData e"
    by simp
  show ?thesis
    using st ev
      markDirty_guard [of "fst destroyedSession" 5 "snd destroyedSession"
        "[KeyDown '' '' 1, ResizeNotify 2, MarkDirty 3, Frame 4 100 50 2]" sampleExt sampleProgState 0 300 150]
    by simp
qed

end
